theory Spec2Isabelle
  imports Main "HOL-Library.Word" "HOL-Library.Mapping" "HOL-Library.AList_Mapping"
begin

unbundle bit_operations_syntax

section \<open>Basic types (smmu\_types.h)\<close>

text \<open>
  Addresses are \<open>uint64_t\<close>, a stream identifier is \<open>uint32_t\<close>, ASID and VMID
  are \<open>uint16_t\<close>; granule sizes and page-table levels are \<open>uint8_t\<close>.
\<close>

type_synonym PhysicalAddress = "64 word"
type_synonym VirtualAddress = "64 word"
type_synonym StreamID = "32 word"
type_synonym ASID = "16 word"
type_synonym VMID = "16 word"

datatype PageSize =
  SIZE_4KB | SIZE_16KB | SIZE_64KB | SIZE_2MB | SIZE_32MB | SIZE_512MB | SIZE_1GB

text \<open>The enumerators' values: \<open>static_cast<uint64_t>(page_size)\<close>.\<close>

fun page_size_value :: "PageSize \<Rightarrow> 64 word" where
  "page_size_value SIZE_4KB = 0x1000"
| "page_size_value SIZE_16KB = 0x4000"
| "page_size_value SIZE_64KB = 0x10000"
| "page_size_value SIZE_2MB = 0x200000"
| "page_size_value SIZE_32MB = 0x2000000"
| "page_size_value SIZE_512MB = 0x20000000"
| "page_size_value SIZE_1GB = 0x40000000"

datatype TranslationStage = STAGE1 | STAGE2 | STAGE1_AND_STAGE2

datatype MemoryType =
  DEVICE_nGnRnE | DEVICE_nGnRE | DEVICE_nGRE | DEVICE_GRE | NORMAL_NC | NORMAL_WT | NORMAL_WB

datatype AccessPermission = NONE | READ_ONLY | WRITE_ONLY | READ_WRITE

record TranslationResult =
  success :: bool
  physical_addr :: PhysicalAddress
  memory_type :: MemoryType
  permission :: AccessPermission
  cacheable :: bool
  shareable :: bool
  fault_reason :: string

text \<open>The default constructor of \<open>TranslationResult\<close>: a failure with an empty reason.\<close>

definition TranslationResult_default :: TranslationResult where
  "TranslationResult_default =
     \<lparr>success = False, physical_addr = 0, memory_type = NORMAL_WB,
      permission = AccessPermission.NONE, cacheable = True, shareable = False,
      fault_reason = []\<rparr>"

datatype FaultType =
  NONE | TRANSLATION_FAULT | PERMISSION_FAULT | ACCESS_FAULT | ADDRESS_SIZE_FAULT
  | TLB_CONFLICT_FAULT | UNSUPPORTED_UPSTREAM_TRANSACTION

record StreamTableEntry =
  valid :: bool
  s1_enabled :: bool
  s2_enabled :: bool
  s1_context_ptr :: PhysicalAddress
  s2_translation_table_base :: PhysicalAddress
  vmid :: VMID
  s1_format :: "8 word"
  s2_granule :: "8 word"

definition StreamTableEntry_default :: StreamTableEntry where
  "StreamTableEntry_default =
     \<lparr>valid = False, s1_enabled = False, s2_enabled = False, s1_context_ptr = 0,
      s2_translation_table_base = 0, vmid = 0, s1_format = 0, s2_granule = 0\<rparr>"

record ContextDescriptor =
  valid :: bool
  translation_table_base :: PhysicalAddress
  asid :: ASID
  translation_granule :: "8 word"
  ips :: "8 word"
  tg :: "8 word"
  sh :: "8 word"
  orgn :: "8 word"
  irgn :: "8 word"

definition ContextDescriptor_default :: ContextDescriptor where
  "ContextDescriptor_default =
     \<lparr>valid = False, translation_table_base = 0, asid = 0, translation_granule = 0,
      ips = 0, tg = 0, sh = 0, orgn = 0, irgn = 0\<rparr>"

section \<open>Page-table walker (page\_table.h, page\_table.cpp)\<close>

record PageTableDescriptor =
  valid :: bool
  is_table :: bool
  address :: PhysicalAddress
  ap :: AccessPermission
  mem_attr :: MemoryType
  shareable :: bool
  access_flag :: bool
  dirty :: bool
  contiguous :: bool
  privileged_execute_never :: bool
  execute_never :: bool

definition PageTableDescriptor_default :: PageTableDescriptor where
  "PageTableDescriptor_default =
     \<lparr>valid = False, is_table = False, address = 0, ap = AccessPermission.NONE,
      mem_attr = NORMAL_WB, shareable = False, access_flag = False, dirty = False,
      contiguous = False, privileged_execute_never = False, execute_never = False\<rparr>"

text \<open>
  \<open>MemoryReadCallback\<close>: the callback is always asked for 8 bytes; \<open>None\<close> is the
  callback returning \<open>false\<close>, \<open>Some d\<close> is \<open>true\<close> with the 64-bit word \<open>d\<close>
  stored through the reference.
\<close>

type_synonym MemoryReadCallback = "PhysicalAddress \<Rightarrow> 64 word option"

record WalkContext =
  va :: VirtualAddress
  ttb :: PhysicalAddress
  granule_size :: "8 word"
  ips_bits :: "8 word"
  start_level :: "8 word"
  max_level :: "8 word"
  stage :: TranslationStage

text \<open>\<open>PageTableWalker::get_page_size\<close>, with the \<open>default\<close> branch of each switch.\<close>

definition get_page_size :: "8 word \<Rightarrow> 8 word \<Rightarrow> PageSize" where
  "get_page_size level granule =
     (if granule = 12 then
        (if level = 0 then SIZE_512MB
         else if level = 1 then SIZE_2MB
         else if level = 2 then SIZE_4KB
         else if level = 3 then SIZE_4KB
         else SIZE_4KB)
      else if granule = 14 then
        (if level = 0 then SIZE_1GB
         else if level = 1 then SIZE_32MB
         else if level = 2 then SIZE_16KB
         else if level = 3 then SIZE_16KB
         else SIZE_16KB)
      else if granule = 16 then
        (if level = 1 then SIZE_512MB
         else if level = 2 then SIZE_64KB
         else if level = 3 then SIZE_64KB
         else SIZE_64KB)
      else SIZE_4KB)"

text \<open>
  \<open>PageTableWalker::get_index_bits\<close>. \<open>bits_per_level\<close> is the \<open>uint8_t\<close>
  difference; the shift amount is computed in \<open>int\<close> (integer promotion) and converted
  to \<open>uint64_t\<close>. A shift by 64 or more is undefined in C++; \<open>drop_bit\<close> and
  \<open>push_bit\<close> give 0 there. The walker only asks for levels 0 to 3 with granule 12, 14
  or 16, where both shift amounts are below 64 (lemma \<open>index_shifts_defined\<close>).
\<close>

definition bits_per_level :: "8 word \<Rightarrow> 8 word" where
  "bits_per_level granule = granule - 3"

definition index_shift :: "8 word \<Rightarrow> 8 word \<Rightarrow> 64 word" where
  "index_shift level granule =
     word_of_int (uint granule + (3 - uint level) * uint (bits_per_level granule))"

definition get_index_bits :: "VirtualAddress \<Rightarrow> 8 word \<Rightarrow> 8 word \<Rightarrow> 64 word" where
  "get_index_bits v level granule =
     (let shift = index_shift level granule;
          mask = push_bit (unat (bits_per_level granule)) (1 :: 64 word) - 1
      in drop_bit (unat shift) v AND mask)"

definition get_descriptor_address :: "PhysicalAddress \<Rightarrow> 64 word \<Rightarrow> 8 word \<Rightarrow> 64 word" where
  "get_descriptor_address table_base index granule = table_base + index * 8"

text \<open>\<open>PageTableWalker::parse_descriptor\<close>.\<close>

definition parse_descriptor :: "64 word \<Rightarrow> 8 word \<Rightarrow> 8 word \<Rightarrow> PageTableDescriptor" where
  "parse_descriptor desc level granule =
     (let result = PageTableDescriptor_default\<lparr>PageTableDescriptor.valid := (desc AND 0x1 \<noteq> 0)\<rparr>
      in if \<not> PageTableDescriptor.valid result then result
         else
           let desc_type = (ucast (drop_bit 1 desc AND 0x1) :: 8 word);
               result = (if level < 3 then result\<lparr>is_table := (desc_type = 1)\<rparr>
                         else result\<lparr>is_table := False\<rparr>);
               result = result\<lparr>address := desc AND 0x0000FFFFFFFFF000\<rparr>;
               ap_bits = (ucast (drop_bit 6 desc AND 0x3) :: 8 word);
               result = (if ap_bits = 0 then result\<lparr>ap := READ_WRITE\<rparr>
                         else if ap_bits = 1 then result\<lparr>ap := READ_WRITE\<rparr>
                         else if ap_bits = 2 then result\<lparr>ap := READ_ONLY\<rparr>
                         else if ap_bits = 3 then result\<lparr>ap := READ_ONLY\<rparr>
                         else result);
               sh_bits = (ucast (drop_bit 8 desc AND 0x3) :: 8 word);
               result = result\<lparr>PageTableDescriptor.shareable := (sh_bits \<noteq> 0)\<rparr>;
               result = result\<lparr>access_flag := (drop_bit 10 desc AND 0x1 \<noteq> 0)\<rparr>;
               attr_idx = (ucast (drop_bit 2 desc AND 0x7) :: 8 word);
               result = (if attr_idx = 0 then result\<lparr>mem_attr := DEVICE_nGnRnE\<rparr>
                         else if attr_idx = 1 then result\<lparr>mem_attr := DEVICE_nGnRE\<rparr>
                         else if attr_idx = 2 then result\<lparr>mem_attr := NORMAL_NC\<rparr>
                         else if attr_idx = 3 then result\<lparr>mem_attr := NORMAL_WT\<rparr>
                         else result\<lparr>mem_attr := NORMAL_WB\<rparr>);
               result = result\<lparr>privileged_execute_never := (drop_bit 53 desc AND 0x1 \<noteq> 0)\<rparr>;
               result = result\<lparr>execute_never := (drop_bit 54 desc AND 0x1 \<noteq> 0)\<rparr>;
               result = result\<lparr>contiguous := (drop_bit 52 desc AND 0x1 \<noteq> 0)\<rparr>;
               result = result\<lparr>dirty := (drop_bit 51 desc AND 0x1 \<noteq> 0)\<rparr>
           in result)"

text \<open>
  \<open>PageTableWalker::walk_table\<close>. The loop state is the current table base and the
  current level. \<open>current_level++\<close> is a \<open>uint8_t\<close> increment, so with
  \<open>max_level = 255\<close> the source's loop need not end: the loop is a partial function,
  \<open>None\<close> standing for a walk that never returns. Besides the result, the model returns
  the addresses handed to the memory-read callback, in call order.
\<close>

partial_function (option) walk_loop ::
  "MemoryReadCallback \<Rightarrow> WalkContext \<Rightarrow> PhysicalAddress \<Rightarrow> 8 word \<Rightarrow> PhysicalAddress list
   \<Rightarrow> (TranslationResult \<times> PhysicalAddress list) option" where
  "walk_loop memory_read ctx table_base current_level reads =
     (if current_level \<le> max_level ctx then
        let index = get_index_bits (va ctx) current_level (granule_size ctx);
            desc_addr = get_descriptor_address table_base index (granule_size ctx)
        in case memory_read desc_addr of
             None \<Rightarrow>
               Some (TranslationResult_default\<lparr>fault_reason := ''Failed to read descriptor''\<rparr>,
                     reads @ [desc_addr])
           | Some desc_value \<Rightarrow>
               let desc = parse_descriptor desc_value current_level (granule_size ctx)
               in if \<not> PageTableDescriptor.valid desc then
                    Some (TranslationResult_default
                            \<lparr>fault_reason := ''Translation fault: invalid descriptor''\<rparr>,
                          reads @ [desc_addr])
                  else if \<not> is_table desc then
                    let page_size = get_page_size current_level (granule_size ctx);
                        page_mask = page_size_value page_size - 1;
                        offset = va ctx AND page_mask
                    in Some (TranslationResult_default
                               \<lparr>success := True,
                                physical_addr := address desc + offset,
                                permission := ap desc,
                                memory_type := mem_attr desc,
                                cacheable := (mem_attr desc = NORMAL_WB \<or> mem_attr desc = NORMAL_WT),
                                TranslationResult.shareable := PageTableDescriptor.shareable desc\<rparr>,
                             reads @ [desc_addr])
                  else walk_loop memory_read ctx (address desc) (current_level + 1)
                         (reads @ [desc_addr])
      else
        Some (TranslationResult_default
                \<lparr>fault_reason := ''Translation fault: exceeded max level''\<rparr>, reads))"

definition walk_table ::
  "MemoryReadCallback \<Rightarrow> WalkContext \<Rightarrow> (TranslationResult \<times> PhysicalAddress list) option" where
  "walk_table memory_read ctx = walk_loop memory_read ctx (ttb ctx) (start_level ctx) []"

text \<open>
  \<open>PageTableWalker::translate\<close>. The context's \<open>start_level\<close> and \<open>max_level\<close> are
  only assigned in the three granule branches; on the fourth the function returns before
  they are read.
\<close>

definition walker_translate ::
  "MemoryReadCallback \<Rightarrow> VirtualAddress \<Rightarrow> PhysicalAddress \<Rightarrow> 8 word \<Rightarrow> 8 word
   \<Rightarrow> TranslationStage \<Rightarrow> (TranslationResult \<times> PhysicalAddress list) option" where
  "walker_translate memory_read v table granule ips_b stg =
     (if granule = 12 then
        walk_table memory_read
          \<lparr>va = v, ttb = table, granule_size = granule, ips_bits = ips_b,
           start_level = 0, max_level = 3, stage = stg\<rparr>
      else if granule = 14 then
        walk_table memory_read
          \<lparr>va = v, ttb = table, granule_size = granule, ips_bits = ips_b,
           start_level = 0, max_level = 3, stage = stg\<rparr>
      else if granule = 16 then
        walk_table memory_read
          \<lparr>va = v, ttb = table, granule_size = granule, ips_bits = ips_b,
           start_level = 1, max_level = 3, stage = stg\<rparr>
      else
        Some (TranslationResult_default\<lparr>fault_reason := ''Invalid granule size''\<rparr>, []))"

text \<open>
  The states the loop of \<open>walk_table\<close> passes through at the head of an iteration:
  the initial one, and the one after each table descriptor that was followed.
\<close>

inductive walk_state ::
  "MemoryReadCallback \<Rightarrow> WalkContext \<Rightarrow> PhysicalAddress \<Rightarrow> 8 word \<Rightarrow> PhysicalAddress list
   \<Rightarrow> bool"
  for memory_read :: MemoryReadCallback and ctx :: WalkContext where
  walk_start: "walk_state memory_read ctx (ttb ctx) (start_level ctx) []"
| walk_descend:
  "walk_state memory_read ctx table_base level reads \<Longrightarrow>
   level \<le> max_level ctx \<Longrightarrow>
   desc_addr = get_descriptor_address table_base
                 (get_index_bits (va ctx) level (granule_size ctx)) (granule_size ctx) \<Longrightarrow>
   memory_read desc_addr = Some desc_value \<Longrightarrow>
   desc = parse_descriptor desc_value level (granule_size ctx) \<Longrightarrow>
   PageTableDescriptor.valid desc \<Longrightarrow>
   is_table desc \<Longrightarrow>
   walk_state memory_read ctx (address desc) (level + 1) (reads @ [desc_addr])"

section \<open>Translation cache (tlb.h, tlb.cpp)\<close>

record TLBEntry =
  va :: VirtualAddress
  pa :: PhysicalAddress
  stream_id :: StreamID
  asid :: ASID
  vmid :: VMID
  page_size :: PageSize
  memory_type :: MemoryType
  permission :: AccessPermission
  cacheable :: bool
  shareable :: bool
  stage :: TranslationStage
  timestamp :: "64 word"

definition TLBEntry_default :: TLBEntry where
  "TLBEntry_default =
     \<lparr>va = 0, pa = 0, stream_id = 0, asid = 0, vmid = 0, page_size = SIZE_4KB,
      memory_type = NORMAL_WB, permission = AccessPermission.NONE, cacheable = True,
      shareable = False, stage = STAGE1, timestamp = 0\<rparr>"

record TLBKey =
  va_base :: VirtualAddress
  stream_id :: StreamID
  asid :: ASID
  vmid :: VMID

text \<open>
  The cache: \<open>entries_\<close> is the hash map, \<open>lru_list_\<close> the recency list with the most
  recently used key at the front. \<open>capacity_\<close> is a \<open>size_t\<close> that is only compared
  with the map's size.
\<close>

record TLB =
  capacity :: nat
  timestamp_counter :: "64 word"
  hit_count :: "64 word"
  miss_count :: "64 word"
  entries :: "(TLBKey, TLBEntry) mapping"
  lru_list :: "TLBKey list"

definition TLB_init :: "nat \<Rightarrow> TLB" where
  "TLB_init cap =
     \<lparr>capacity = cap, timestamp_counter = 0, hit_count = 0, miss_count = 0,
      entries = Mapping.empty, lru_list = []\<rparr>"

definition get_page_base :: "VirtualAddress \<Rightarrow> PageSize \<Rightarrow> VirtualAddress" where
  "get_page_base v ps = v AND NOT (page_size_value ps - 1)"

text \<open>
  \<open>TLB::lookup\<close>: the loop over the page sizes to probe, then the function with the
  source's list of sizes.
\<close>

fun lookup_loop ::
  "TLB \<Rightarrow> VirtualAddress \<Rightarrow> StreamID \<Rightarrow> ASID \<Rightarrow> VMID \<Rightarrow> PageSize list
   \<Rightarrow> TLBEntry option \<times> TLB" where
  "lookup_loop t v sid a vm [] = (None, t\<lparr>miss_count := miss_count t + 1\<rparr>)"
| "lookup_loop t v sid a vm (ps # rest) =
     (let key = \<lparr>va_base = get_page_base v ps, stream_id = sid, asid = a, vmid = vm\<rparr>
      in case Mapping.lookup (entries t) key of
           Some e \<Rightarrow>
             (Some e, t\<lparr>lru_list := key # removeAll key (lru_list t),
                        hit_count := hit_count t + 1\<rparr>)
         | None \<Rightarrow> lookup_loop t v sid a vm rest)"

definition tlb_lookup ::
  "TLB \<Rightarrow> VirtualAddress \<Rightarrow> StreamID \<Rightarrow> ASID \<Rightarrow> VMID \<Rightarrow> TLBEntry option \<times> TLB" where
  "tlb_lookup t v sid a vm = lookup_loop t v sid a vm [SIZE_1GB, SIZE_2MB, SIZE_64KB, SIZE_4KB]"

text \<open>\<open>TLB::evict_lru\<close>.\<close>

definition evict_lru :: "TLB \<Rightarrow> TLB" where
  "evict_lru t =
     (if lru_list t = [] then t
      else let lru_key = last (lru_list t)
           in t\<lparr>lru_list := butlast (lru_list t),
                entries := Mapping.delete lru_key (entries t)\<rparr>)"

text \<open>The key \<open>TLB::insert\<close> computes for an entry.\<close>

definition entry_key :: "TLBEntry \<Rightarrow> TLBKey" where
  "entry_key entry =
     \<lparr>va_base = get_page_base (TLBEntry.va entry) (page_size entry),
      stream_id = TLBEntry.stream_id entry, asid = TLBEntry.asid entry,
      vmid = TLBEntry.vmid entry\<rparr>"

text \<open>\<open>TLB::insert\<close>.\<close>

definition tlb_insert :: "TLB \<Rightarrow> TLBEntry \<Rightarrow> TLB" where
  "tlb_insert t entry =
     (let key = entry_key entry;
          t1 = (if Mapping.lookup (entries t) key \<noteq> None then
                  t\<lparr>lru_list := removeAll key (lru_list t)\<rparr>
                else if capacity t \<le> Mapping.size (entries t) then evict_lru t
                else t);
          new_entry = entry\<lparr>timestamp := timestamp_counter t1\<rparr>;
          t2 = t1\<lparr>timestamp_counter := timestamp_counter t1 + 1\<rparr>
      in t2\<lparr>entries := Mapping.update key new_entry (entries t2),
             lru_list := key # lru_list t2\<rparr>)"

text \<open>
  The invalidations. Each loop of the source walks the map, erases the entries that
  match and removes their keys from the recency list; the order of the walk does not
  show in the result, so the loop is a filter of the map and of the list.
\<close>

definition invalidate_all :: "TLB \<Rightarrow> TLB" where
  "invalidate_all t = t\<lparr>entries := Mapping.empty, lru_list := []\<rparr>"

definition erase_matching :: "(TLBEntry \<Rightarrow> bool) \<Rightarrow> TLB \<Rightarrow> TLB" where
  "erase_matching matches t =
     t\<lparr>lru_list :=
         filter (\<lambda>k. case Mapping.lookup (entries t) k of
                        Some e \<Rightarrow> \<not> matches e
                      | None \<Rightarrow> True) (lru_list t),
       entries := Mapping.filter (\<lambda>k e. \<not> matches e) (entries t)\<rparr>"

definition invalidate_by_asid :: "TLB \<Rightarrow> ASID \<Rightarrow> TLB" where
  "invalidate_by_asid t a = erase_matching (\<lambda>e. TLBEntry.asid e = a) t"

definition invalidate_by_vmid :: "TLB \<Rightarrow> VMID \<Rightarrow> TLB" where
  "invalidate_by_vmid t vm = erase_matching (\<lambda>e. TLBEntry.vmid e = vm) t"

definition invalidate_by_va :: "TLB \<Rightarrow> VirtualAddress \<Rightarrow> ASID \<Rightarrow> TLB" where
  "invalidate_by_va t v a =
     foldl (\<lambda>t ps.
              erase_matching
                (\<lambda>e. TLBEntry.asid e = a \<and>
                      get_page_base (TLBEntry.va e) (page_size e) = get_page_base v ps) t)
       t [SIZE_1GB, SIZE_2MB, SIZE_64KB, SIZE_4KB]"

definition invalidate_by_stream :: "TLB \<Rightarrow> StreamID \<Rightarrow> TLB" where
  "invalidate_by_stream t sid = erase_matching (\<lambda>e. TLBEntry.stream_id e = sid) t"

text \<open>
  A sequence of cache operations, for statements about every sequence of calls of the
  public interface of \<open>TLB\<close>.
\<close>

datatype TLBOp =
  Lookup VirtualAddress StreamID ASID VMID
  | Insert TLBEntry
  | InvalidateAll
  | InvalidateByAsid ASID
  | InvalidateByVmid VMID
  | InvalidateByVa VirtualAddress ASID
  | InvalidateByStream StreamID

fun tlb_apply :: "TLB \<Rightarrow> TLBOp \<Rightarrow> TLB" where
  "tlb_apply t (Lookup v sid a vm) = snd (tlb_lookup t v sid a vm)"
| "tlb_apply t (Insert e) = tlb_insert t e"
| "tlb_apply t InvalidateAll = invalidate_all t"
| "tlb_apply t (InvalidateByAsid a) = invalidate_by_asid t a"
| "tlb_apply t (InvalidateByVmid vm) = invalidate_by_vmid t vm"
| "tlb_apply t (InvalidateByVa v a) = invalidate_by_va t v a"
| "tlb_apply t (InvalidateByStream sid) = invalidate_by_stream t sid"

text \<open>
  The two containers of the cache agree: the recency list has no duplicates and holds
  exactly the keys of the map.
\<close>

definition tlb_inv :: "TLB \<Rightarrow> bool" where
  "tlb_inv t = (distinct (lru_list t) \<and> set (lru_list t) = Mapping.keys (entries t))"

section \<open>Orchestrator (smmu.h, smmu.cpp)\<close>

text \<open>
  \<open>Command\<close> is a type tag with a union of payloads; each constructor carries the
  payload that belongs to its tag.
\<close>

datatype Command =
  CMD_SYNC
  | CMD_PREFETCH_CONFIG
  | CMD_PREFETCH_ADDR
  | CMD_CFGI_STE StreamID
  | CMD_CFGI_CD StreamID ASID
  | CMD_CFGI_ALL
  | CMD_TLBI_NH_ALL
  | CMD_TLBI_NH_ASID ASID
  | CMD_TLBI_NH_VA VirtualAddress ASID
  | CMD_TLBI_S12_VMALL VMID

record Event =
  fault_type :: FaultType
  stream_id :: StreamID
  asid :: ASID
  vmid :: VMID
  va :: VirtualAddress
  description :: string
  timestamp :: "64 word"

text \<open>The default constructor of \<open>Event\<close>; the description is the empty string.\<close>

definition Event_default :: Event where
  "Event_default =
     \<lparr>fault_type = FaultType.NONE, stream_id = 0, asid = 0, vmid = 0, va = 0,
      description = [], timestamp = 0\<rparr>"

record SMMUConfig =
  tlb_size :: nat
  stream_table_size :: nat
  command_queue_size :: nat
  event_queue_size :: nat
  stage1_enabled :: bool
  stage2_enabled :: bool

definition SMMUConfig_default :: SMMUConfig where
  "SMMUConfig_default =
     \<lparr>tlb_size = 128, stream_table_size = 256, command_queue_size = 64,
      event_queue_size = 64, stage1_enabled = True, stage2_enabled = False\<rparr>"

record Statistics =
  total_translations :: "64 word"
  tlb_hits :: "64 word"
  tlb_misses :: "64 word"
  page_table_walks :: "64 word"
  translation_faults :: "64 word"
  permission_faults :: "64 word"
  commands_processed :: "64 word"
  events_generated :: "64 word"

definition Statistics_zero :: Statistics where
  "Statistics_zero =
     \<lparr>total_translations = 0, tlb_hits = 0, tlb_misses = 0, page_table_walks = 0,
      translation_faults = 0, permission_faults = 0, commands_processed = 0,
      events_generated = 0\<rparr>"

text \<open>
  The state of an \<open>SMMU\<close> object. \<open>memory_read\<close> is the callback that
  \<open>set_memory_model\<close> hands to the page-table walker; the two queues are lists with the
  front of the queue at the head.
\<close>

record SMMU =
  config :: SMMUConfig
  enabled :: bool
  tlb :: TLB
  memory_read :: MemoryReadCallback
  stream_table :: "(StreamID, StreamTableEntry) mapping"
  context_descriptors :: "(64 word, ContextDescriptor) mapping"
  command_queue :: "Command list"
  event_queue :: "Event list"
  stats :: Statistics
  timestamp_counter :: "64 word"

text \<open>
  The constructor followed by \<open>set_memory_model\<close>. (Before \<open>set_memory_model\<close> the
  walker pointer of the source is null, and a translation that misses the cache would
  dereference it.)
\<close>

definition SMMU_init :: "SMMUConfig \<Rightarrow> MemoryReadCallback \<Rightarrow> SMMU" where
  "SMMU_init cfg mem =
     \<lparr>config = cfg, enabled = False, tlb = TLB_init (tlb_size cfg), memory_read = mem,
      stream_table = Mapping.empty, context_descriptors = Mapping.empty,
      command_queue = [], event_queue = [], stats = Statistics_zero,
      timestamp_counter = 0\<rparr>"

definition make_cd_key :: "StreamID \<Rightarrow> ASID \<Rightarrow> 64 word" where
  "make_cd_key sid a = push_bit 16 (ucast sid :: 64 word) OR ucast a"

definition configure_stream_table_entry :: "SMMU \<Rightarrow> StreamID \<Rightarrow> StreamTableEntry \<Rightarrow> SMMU" where
  "configure_stream_table_entry s sid ste =
     s\<lparr>stream_table := Mapping.update sid ste (stream_table s)\<rparr>"

definition get_stream_table_entry :: "SMMU \<Rightarrow> StreamID \<Rightarrow> StreamTableEntry" where
  "get_stream_table_entry s sid =
     (case Mapping.lookup (stream_table s) sid of
        Some ste \<Rightarrow> ste
      | None \<Rightarrow> StreamTableEntry_default)"

definition configure_context_descriptor ::
  "SMMU \<Rightarrow> StreamID \<Rightarrow> ASID \<Rightarrow> ContextDescriptor \<Rightarrow> SMMU" where
  "configure_context_descriptor s sid a cd =
     s\<lparr>context_descriptors := Mapping.update (make_cd_key sid a) cd (context_descriptors s)\<rparr>"

definition get_context_descriptor :: "SMMU \<Rightarrow> StreamID \<Rightarrow> ASID \<Rightarrow> ContextDescriptor" where
  "get_context_descriptor s sid a =
     (case Mapping.lookup (context_descriptors s) (make_cd_key sid a) of
        Some cd \<Rightarrow> cd
      | None \<Rightarrow> ContextDescriptor_default)"

text \<open>\<open>SMMU::generate_event\<close>: a full event queue drops the event.\<close>

definition generate_event ::
  "SMMU \<Rightarrow> FaultType \<Rightarrow> StreamID \<Rightarrow> ASID \<Rightarrow> VMID \<Rightarrow> VirtualAddress \<Rightarrow> string \<Rightarrow> SMMU" where
  "generate_event s ft sid a vm v descr =
     (if length (event_queue s) < event_queue_size (config s) then
        let event = \<lparr>fault_type = ft, stream_id = sid, asid = a, vmid = vm, va = v,
                     description = descr, timestamp = SMMU.timestamp_counter s\<rparr>
        in s\<lparr>SMMU.timestamp_counter := SMMU.timestamp_counter s + 1,
             event_queue := event_queue s @ [event],
             stats := (stats s)\<lparr>events_generated := events_generated (stats s) + 1\<rparr>\<rparr>
      else s)"

definition count_translation_fault :: "SMMU \<Rightarrow> SMMU" where
  "count_translation_fault s =
     s\<lparr>stats := (stats s)\<lparr>translation_faults := translation_faults (stats s) + 1\<rparr>\<rparr>"

definition count_page_table_walk :: "SMMU \<Rightarrow> SMMU" where
  "count_page_table_walk s =
     s\<lparr>stats := (stats s)\<lparr>page_table_walks := page_table_walks (stats s) + 1\<rparr>\<rparr>"

text \<open>
  \<open>SMMU::translate_stage1\<close>. The function returns the result and the new state;
  \<open>None\<close> is a walk that does not return.
\<close>

definition translate_stage1 ::
  "SMMU \<Rightarrow> VirtualAddress \<Rightarrow> StreamTableEntry \<Rightarrow> ContextDescriptor
   \<Rightarrow> (TranslationResult \<times> SMMU) option" where
  "translate_stage1 s v ste cd =
     (if \<not> ContextDescriptor.valid cd then
        let result = TranslationResult_default\<lparr>fault_reason := ''Invalid context descriptor''\<rparr>;
            s = generate_event s TRANSLATION_FAULT 0 (ContextDescriptor.asid cd)
                  (StreamTableEntry.vmid ste) v (fault_reason result);
            s = count_translation_fault s
        in Some (result, s)
      else
        case walker_translate (memory_read s) v (translation_table_base cd)
               (translation_granule cd) (ips cd) STAGE1 of
          None \<Rightarrow> None
        | Some (result, reads) \<Rightarrow>
            let s = count_page_table_walk s
            in if \<not> success result then
                 let s = generate_event s TRANSLATION_FAULT 0 (ContextDescriptor.asid cd)
                           (StreamTableEntry.vmid ste) v (fault_reason result);
                     s = count_translation_fault s
                 in Some (result, s)
               else Some (result, s))"

text \<open>\<open>SMMU::translate_stage2\<close>.\<close>

definition translate_stage2 ::
  "SMMU \<Rightarrow> PhysicalAddress \<Rightarrow> StreamTableEntry \<Rightarrow> (TranslationResult \<times> SMMU) option" where
  "translate_stage2 s ipa ste =
     (if \<not> s2_enabled ste then
        Some (TranslationResult_default\<lparr>success := True, physical_addr := ipa\<rparr>, s)
      else
        case walker_translate (memory_read s) ipa (s2_translation_table_base ste)
               (s2_granule ste) 48 STAGE2 of
          None \<Rightarrow> None
        | Some (result, reads) \<Rightarrow>
            let s = count_page_table_walk s
            in if \<not> success result then
                 let s = generate_event s TRANSLATION_FAULT 0 0
                           (StreamTableEntry.vmid ste) ipa (fault_reason result);
                     s = count_translation_fault s
                 in Some (result, s)
               else Some (result, s))"

text \<open>
  Step 3 of \<open>SMMU::translate\<close>, the stages the stream table entry enables. \<open>Inl\<close> is a
  \<open>return\<close> inside the step, \<open>Inr\<close> falls through to step 4.
\<close>

definition translate_stages ::
  "SMMU \<Rightarrow> VirtualAddress \<Rightarrow> StreamID \<Rightarrow> ASID \<Rightarrow> VMID \<Rightarrow> StreamTableEntry
   \<Rightarrow> ((TranslationResult \<times> SMMU) + (TranslationResult \<times> SMMU)) option" where
  "translate_stages s v sid a vm ste =
     (if s1_enabled ste then
        let cd = get_context_descriptor s sid a
        in case translate_stage1 s v ste cd of
             None \<Rightarrow> None
           | Some (result, s) \<Rightarrow>
               if \<not> success result then Some (Inl (result, s))
               else if s2_enabled ste then
                 (case translate_stage2 s (physical_addr result) ste of
                    None \<Rightarrow> None
                  | Some (result, s) \<Rightarrow> Some (Inr (result, s)))
               else Some (Inr (result, s))
      else if s2_enabled ste then
        (case translate_stage2 s v ste of
           None \<Rightarrow> None
         | Some (result, s) \<Rightarrow> Some (Inr (result, s)))
      else
        let result = TranslationResult_default\<lparr>fault_reason := ''No translation stages enabled''\<rparr>;
            s = generate_event s TRANSLATION_FAULT sid a vm v (fault_reason result);
            s = count_translation_fault s
        in Some (Inl (result, s)))"

text \<open>Step 4 of \<open>SMMU::translate\<close>: a successful result is put into the cache.\<close>

definition translate_fill ::
  "SMMU \<Rightarrow> VirtualAddress \<Rightarrow> StreamID \<Rightarrow> ASID \<Rightarrow> VMID \<Rightarrow> StreamTableEntry
   \<Rightarrow> TranslationResult \<Rightarrow> SMMU" where
  "translate_fill s v sid a vm ste result =
     (if success result then
        let entry = TLBEntry_default
              \<lparr>TLBEntry.va := v,
               pa := physical_addr result,
               TLBEntry.stream_id := sid,
               TLBEntry.asid := a,
               TLBEntry.vmid := vm,
               page_size := SIZE_4KB,
               TLBEntry.memory_type := TranslationResult.memory_type result,
               TLBEntry.permission := TranslationResult.permission result,
               TLBEntry.cacheable := TranslationResult.cacheable result,
               TLBEntry.shareable := TranslationResult.shareable result,
               TLBEntry.stage := (if s1_enabled ste then STAGE1 else STAGE2)\<rparr>
        in s\<lparr>tlb := tlb_insert (tlb s) entry\<rparr>
      else s)"

text \<open>\<open>SMMU::translate\<close>.\<close>

definition translate ::
  "SMMU \<Rightarrow> VirtualAddress \<Rightarrow> StreamID \<Rightarrow> ASID \<Rightarrow> VMID \<Rightarrow> (TranslationResult \<times> SMMU) option" where
  "translate s v sid a vm =
     (let s = s\<lparr>stats := (stats s)\<lparr>total_translations := total_translations (stats s) + 1\<rparr>\<rparr>
      in if \<not> enabled s then
           Some (TranslationResult_default\<lparr>fault_reason := ''SMMU is disabled''\<rparr>, s)
         else
           case tlb_lookup (tlb s) v sid a vm of
             (Some tlb_entry, t) \<Rightarrow>
               let s = s\<lparr>tlb := t, stats := (stats s)\<lparr>tlb_hits := tlb_hits (stats s) + 1\<rparr>\<rparr>
               in Some (TranslationResult_default
                          \<lparr>success := True,
                           physical_addr := pa tlb_entry,
                           TranslationResult.memory_type := TLBEntry.memory_type tlb_entry,
                           TranslationResult.permission := TLBEntry.permission tlb_entry,
                           TranslationResult.cacheable := TLBEntry.cacheable tlb_entry,
                           TranslationResult.shareable := TLBEntry.shareable tlb_entry\<rparr>, s)
           | (None, t) \<Rightarrow>
               let s = s\<lparr>tlb := t, stats := (stats s)\<lparr>tlb_misses := tlb_misses (stats s) + 1\<rparr>\<rparr>;
                   ste = get_stream_table_entry s sid
               in if \<not> StreamTableEntry.valid ste then
                    let result = TranslationResult_default
                                   \<lparr>fault_reason := ''Invalid stream table entry''\<rparr>;
                        s = generate_event s TRANSLATION_FAULT sid a vm v (fault_reason result);
                        s = count_translation_fault s
                    in Some (result, s)
                  else
                    case translate_stages s v sid a vm ste of
                      None \<Rightarrow> None
                    | Some (Inl returned) \<Rightarrow> Some returned
                    | Some (Inr (result, s)) \<Rightarrow>
                        Some (result, translate_fill s v sid a vm ste result))"

text \<open>The command queue.\<close>

definition submit_command :: "SMMU \<Rightarrow> Command \<Rightarrow> SMMU" where
  "submit_command s cmd =
     (if length (command_queue s) < command_queue_size (config s) then
        s\<lparr>command_queue := command_queue s @ [cmd]\<rparr>
      else s)"

definition invalidate_tlb_all :: "SMMU \<Rightarrow> SMMU" where
  "invalidate_tlb_all s = s\<lparr>tlb := invalidate_all (tlb s)\<rparr>"

definition invalidate_tlb_by_asid :: "SMMU \<Rightarrow> ASID \<Rightarrow> SMMU" where
  "invalidate_tlb_by_asid s a = s\<lparr>tlb := invalidate_by_asid (tlb s) a\<rparr>"

definition invalidate_tlb_by_vmid :: "SMMU \<Rightarrow> VMID \<Rightarrow> SMMU" where
  "invalidate_tlb_by_vmid s vm = s\<lparr>tlb := invalidate_by_vmid (tlb s) vm\<rparr>"

definition invalidate_tlb_by_va :: "SMMU \<Rightarrow> VirtualAddress \<Rightarrow> ASID \<Rightarrow> SMMU" where
  "invalidate_tlb_by_va s v a = s\<lparr>tlb := invalidate_by_va (tlb s) v a\<rparr>"

definition invalidate_tlb_by_stream :: "SMMU \<Rightarrow> StreamID \<Rightarrow> SMMU" where
  "invalidate_tlb_by_stream s sid = s\<lparr>tlb := invalidate_by_stream (tlb s) sid\<rparr>"

text \<open>\<open>SMMU::process_command\<close>; the two prefetch commands take the \<open>default\<close> branch.\<close>

fun command_effect :: "SMMU \<Rightarrow> Command \<Rightarrow> SMMU" where
  "command_effect s CMD_SYNC = s"
| "command_effect s (CMD_CFGI_STE sid) = invalidate_tlb_by_stream s sid"
| "command_effect s (CMD_CFGI_CD sid a) = invalidate_tlb_by_asid s a"
| "command_effect s CMD_CFGI_ALL = invalidate_tlb_all s"
| "command_effect s CMD_TLBI_NH_ALL = invalidate_tlb_all s"
| "command_effect s (CMD_TLBI_NH_ASID a) = invalidate_tlb_by_asid s a"
| "command_effect s (CMD_TLBI_NH_VA v a) = invalidate_tlb_by_va s v a"
| "command_effect s (CMD_TLBI_S12_VMALL vm) = invalidate_tlb_by_vmid s vm"
| "command_effect s CMD_PREFETCH_CONFIG = s"
| "command_effect s CMD_PREFETCH_ADDR = s"

definition process_command :: "SMMU \<Rightarrow> Command \<Rightarrow> SMMU" where
  "process_command s cmd =
     (let s = command_effect s cmd
      in s\<lparr>stats := (stats s)\<lparr>commands_processed := commands_processed (stats s) + 1\<rparr>\<rparr>)"

lemma command_queue_process_command:
  "command_queue (process_command s cmd) = command_queue s"
  by (cases cmd)
    (simp_all add: process_command_def invalidate_tlb_all_def invalidate_tlb_by_asid_def
      invalidate_tlb_by_vmid_def invalidate_tlb_by_va_def invalidate_tlb_by_stream_def)

text \<open>
  \<open>SMMU::process_commands\<close>: while the queue is not empty, take its front, pop it and
  process it. The loop ends because processing a command leaves the queue alone.
\<close>

function process_commands :: "SMMU \<Rightarrow> SMMU" where
  "process_commands s =
     (case command_queue s of
        [] \<Rightarrow> s
      | cmd # rest \<Rightarrow> process_commands (process_command (s\<lparr>command_queue := rest\<rparr>) cmd))"
  by pat_completeness auto
termination
  by (relation "measure (\<lambda>s. length (command_queue s))")
    (simp_all add: command_queue_process_command)

declare process_commands.simps [simp del]

text \<open>The event queue.\<close>

definition has_events :: "SMMU \<Rightarrow> bool" where
  "has_events s = (event_queue s \<noteq> [])"

definition pop_event :: "SMMU \<Rightarrow> Event \<times> SMMU" where
  "pop_event s =
     (case event_queue s of
        event # rest \<Rightarrow> (event, s\<lparr>event_queue := rest\<rparr>)
      | [] \<Rightarrow> (Event_default, s))"

definition reset_statistics :: "SMMU \<Rightarrow> SMMU" where
  "reset_statistics s = s\<lparr>stats := Statistics_zero\<rparr>"

definition enable :: "SMMU \<Rightarrow> SMMU" where
  "enable s = s\<lparr>enabled := True\<rparr>"

definition disable :: "SMMU \<Rightarrow> SMMU" where
  "disable s = s\<lparr>enabled := False\<rparr>"

section \<open>A worked configuration\<close>

text \<open>
  A memory with a level-0 table at \<open>0x1000\<close> whose first descriptor points to a level-1
  table at \<open>0x2000\<close>, whose first descriptor is a block descriptor for \<open>0x40000000\<close>
  (Normal-WriteBack, shareable, access flag set); every other word reads as zero. The
  unit is built with the default configuration over this memory, stream 0 is configured
  valid with stage 1 enabled, context (0, 1) points to the table with granule 12, and the
  unit is enabled.
\<close>

definition block_memory :: MemoryReadCallback where
  "block_memory a =
     (if a = 0x1000 then Some 0x2003 else if a = 0x2000 then Some 0x40000711 else Some 0)"

definition example_smmu :: SMMU where
  "example_smmu =
     enable
       (configure_context_descriptor
          (configure_stream_table_entry (SMMU_init SMMUConfig_default block_memory) 0
             (StreamTableEntry_default\<lparr>StreamTableEntry.valid := True, s1_enabled := True\<rparr>))
          0 1
          (ContextDescriptor_default
             \<lparr>ContextDescriptor.valid := True, translation_table_base := 0x1000,
              ContextDescriptor.asid := 1, translation_granule := 12, ips := 48\<rparr>))"

text \<open>
  What a failed translation leaves behind, as a relation between the state before and the
  state after: one more translation fault counted, and one Translation-fault event with
  the given reason appended unless the event queue was full. The second relation says
  that no fault was counted and no event generated; the third, that the cache, the
  enable switch, the configuration, the memory callback, the two configuration stores and
  the hit counter are unchanged.
\<close>

abbreviation fault_recorded :: "SMMU \<Rightarrow> SMMU \<Rightarrow> string \<Rightarrow> bool" where
  "fault_recorded s s' reason \<equiv>
     translation_faults (stats s') = translation_faults (stats s) + 1 \<and>
     (if length (event_queue s) < event_queue_size (config s) then
        (\<exists>ev. event_queue s' = event_queue s @ [ev] \<and>
              fault_type ev = TRANSLATION_FAULT \<and> description ev = reason) \<and>
        events_generated (stats s') = events_generated (stats s) + 1
      else
        event_queue s' = event_queue s \<and>
        events_generated (stats s') = events_generated (stats s))"

abbreviation no_fault_recorded :: "SMMU \<Rightarrow> SMMU \<Rightarrow> bool" where
  "no_fault_recorded s s' \<equiv>
     translation_faults (stats s') = translation_faults (stats s) \<and>
     event_queue s' = event_queue s \<and>
     events_generated (stats s') = events_generated (stats s)"

abbreviation same_unit :: "SMMU \<Rightarrow> SMMU \<Rightarrow> bool" where
  "same_unit s s' \<equiv>
     tlb s' = tlb s \<and> enabled s' = enabled s \<and> config s' = config s \<and>
     memory_read s' = memory_read s \<and> stream_table s' = stream_table s \<and>
     context_descriptors s' = context_descriptors s \<and>
     tlb_hits (stats s') = tlb_hits (stats s)"

section \<open>The descriptor parser\<close>

lemma drop_bit_and_1: "drop_bit n (w :: 64 word) AND 1 = of_bool (bit w n)"
  by (simp add: and_one_eq mod_2_eq_odd bit_iff_odd_drop_bit)

lemma and_1_neq_0_iff: "(w AND 1 \<noteq> 0) = bit (w :: 64 word) 0"
  using drop_bit_and_1 [of 0 w] by simp

lemma ucast_drop_bit_eq_1: "((ucast (drop_bit n (w :: 64 word) AND 1) :: 8 word) = 1) = bit w n"
  by (simp add: drop_bit_and_1)

lemma is_table_level: "is_table (parse_descriptor d level g) \<Longrightarrow> level < 3"
  by (simp add: parse_descriptor_def Let_def PageTableDescriptor_default_def split: if_splits)

text \<open>
  Claim C5. For a descriptor word with bit 0 set, the parser reports a valid descriptor;
  at a level below 3 it is a table descriptor exactly when bit 1 is set, and at level 3
  (and any higher level value) it is never a table descriptor, whatever bit 1 is.
\<close>

theorem parse_descriptor_is_table:
  assumes "bit desc 0"
  shows "PageTableDescriptor.valid (parse_descriptor desc level granule) \<and>
         is_table (parse_descriptor desc level granule) =
           (if level < 3 then bit desc 1 else False)"
  using assms
  by (simp add: parse_descriptor_def Let_def PageTableDescriptor_default_def and_1_neq_0_iff
      ucast_drop_bit_eq_1 [of 1, simplified])

theorem parse_descriptor_is_table_witness:
  "bit (0x101713 :: 64 word) 0 \<and> bit (0x101713 :: 64 word) 1 \<and> \<not> bit (0x101711 :: 64 word) 1 \<and>
   is_table (parse_descriptor 0x101713 2 12) \<and>
   \<not> is_table (parse_descriptor 0x101711 2 12) \<and>
   \<not> is_table (parse_descriptor 0x101713 3 12) \<and>
   \<not> is_table (parse_descriptor 0x101711 3 12)"
proof -
  have b: "bit (0x101713 :: 64 word) 0" "bit (0x101711 :: 64 word) 0"
    "bit (0x101713 :: 64 word) 1" "\<not> bit (0x101711 :: 64 word) 1"
    by (simp_all add: bit_iff_odd_drop_bit)
  show ?thesis
    using parse_descriptor_is_table [OF b(1), of 2 12] parse_descriptor_is_table [OF b(2), of 2 12]
      parse_descriptor_is_table [OF b(1), of 3 12] parse_descriptor_is_table [OF b(2), of 3 12] b
    by simp
qed

section \<open>The walker\<close>

text \<open>
  Claim C6. With a granule size other than 12, 14 and 16 the walker's translate returns
  the failure result with reason "Invalid granule size", whatever the address, the table
  base, the address size, the stage and the memory callback are, and the callback is
  never called: the list of addresses read is empty.
\<close>

theorem walker_translate_invalid_granule:
  assumes "granule \<noteq> 12" and "granule \<noteq> 14" and "granule \<noteq> 16"
  shows "walker_translate rd v table granule ips_b stg =
           Some (\<lparr>success = False, physical_addr = 0,
                  TranslationResult.memory_type = NORMAL_WB,
                  TranslationResult.permission = AccessPermission.NONE,
                  TranslationResult.cacheable = True, TranslationResult.shareable = False,
                  fault_reason = ''Invalid granule size''\<rparr>, [])"
  using assms by (simp add: walker_translate_def TranslationResult_default_def)

theorem walker_translate_invalid_granule_witness:
  "walker_translate (\<lambda>a. Some 0x40000711) 0x1234 0x1000 13 48 STAGE1 =
     Some (\<lparr>success = False, physical_addr = 0,
            TranslationResult.memory_type = NORMAL_WB,
            TranslationResult.permission = AccessPermission.NONE,
            TranslationResult.cacheable = True, TranslationResult.shareable = False,
            fault_reason = ''Invalid granule size''\<rparr>, [])"
  using walker_translate_invalid_granule [of 13 "\<lambda>a. Some 0x40000711" "0x1234" "0x1000" 48 STAGE1]
  by simp


lemma word8_le_3_cases:
  assumes "(l :: 8 word) \<le> 3"
  shows "l = 0 \<or> l = 1 \<or> l = 2 \<or> l = 3"
proof -
  from assms have "unat l \<le> 3" by (simp add: word_le_nat_alt)
  then consider "unat l = 0" | "unat l = 1" | "unat l = 2" | "unat l = 3" by arith
  then show ?thesis
  proof cases
    case 1
    then have "(of_nat (unat l) :: 8 word) = of_nat 0" by simp
    then show ?thesis by simp
  next
    case 2
    then have "(of_nat (unat l) :: 8 word) = of_nat 1" by simp
    then show ?thesis by simp
  next
    case 3
    then have "(of_nat (unat l) :: 8 word) = of_nat 2" by simp
    then show ?thesis by simp
  next
    case 4
    then have "(of_nat (unat l) :: 8 word) = of_nat 3" by simp
    then show ?thesis by simp
  qed
qed

text \<open>The shifts of \<open>get_index_bits\<close> are defined wherever the walker computes them.\<close>

lemma index_shifts_defined:
  assumes "granule = 12 \<or> granule = 14 \<or> granule = 16" and "level \<le> 3"
  shows "unat (bits_per_level granule) < 64 \<and> unat (index_shift level granule) < 64"
  using assms(1) word8_le_3_cases [OF assms(2)]
  by (elim disjE) (simp_all add: bits_per_level_def index_shift_def)

text \<open>With \<open>max_level = 3\<close> the walk returns: it is total on the contexts translate builds.\<close>

lemma walk_loop_descend_returns:
  assumes "\<And>tb rs. walk_loop rd ctx tb (l + 1) rs \<noteq> None"
  shows "walk_loop rd ctx table_base l reads \<noteq> None"
proof (cases "walk_loop rd ctx table_base l reads")
  case None
  have "walk_loop rd ctx (address (parse_descriptor d l (granule_size ctx))) (l + 1) rs = None
     \<Longrightarrow> False" for d rs
    using assms by blast
  with None show ?thesis
    by (subst (asm) walk_loop.simps) (auto simp: Let_def split: option.splits if_splits)
next
  case (Some r)
  then show ?thesis by simp
qed

lemma walk_loop_returns:
  assumes "max_level ctx = 3" and "l \<le> 3"
  shows "walk_loop rd ctx table_base l reads \<noteq> None"
proof -
  have l4: "walk_loop rd ctx tb 4 rs \<noteq> None" for tb rs
    using assms(1) by (subst walk_loop.simps) simp
  have l3: "walk_loop rd ctx tb 3 rs \<noteq> None" for tb rs
    using walk_loop_descend_returns [of rd ctx 3] l4 by simp
  have l2: "walk_loop rd ctx tb 2 rs \<noteq> None" for tb rs
    using walk_loop_descend_returns [of rd ctx 2] l3 by simp
  have l1: "walk_loop rd ctx tb 1 rs \<noteq> None" for tb rs
    using walk_loop_descend_returns [of rd ctx 1] l2 by simp
  have l0: "walk_loop rd ctx tb 0 rs \<noteq> None" for tb rs
    using walk_loop_descend_returns [of rd ctx 0] l1 by simp
  from word8_le_3_cases [OF assms(2)] show ?thesis
    using l0 l1 l2 l3 by blast
qed

lemma walker_translate_returns:
  "\<exists>result reads. walker_translate rd v table granule ips_b stg = Some (result, reads)"
proof -
  have "walk_table rd ctx \<noteq> None" if "max_level ctx = 3" "start_level ctx \<le> 3" for ctx
    unfolding walk_table_def using that by (rule walk_loop_returns)
  then have "walker_translate rd v table granule ips_b stg \<noteq> None"
    unfolding walker_translate_def by simp
  then show ?thesis by auto
qed

text \<open>Every state of the walk leads to the result of the whole walk.\<close>

lemma walk_state_loop:
  "walk_state rd ctx table_base level reads \<Longrightarrow>
   walk_table rd ctx = walk_loop rd ctx table_base level reads"
proof (induction rule: walk_state.induct)
  case walk_start
  show ?case by (simp add: walk_table_def)
next
  case (walk_descend table_base level reads desc_addr desc_value desc)
  have "walk_loop rd ctx table_base level reads =
        walk_loop rd ctx (address desc) (level + 1) (reads @ [desc_addr])"
    using walk_descend.hyps by (subst walk_loop.simps) (simp add: Let_def)
  with walk_descend.IH show ?case by simp
qed

lemma word8_succ_le: "(l :: 8 word) < 3 \<Longrightarrow> s \<le> l \<Longrightarrow> s \<le> l + 1 \<and> l + 1 \<le> 3"
  by (simp add: word_less_nat_alt word_le_nat_alt unat_word_ariths)

lemma walk_state_level:
  "walk_state rd ctx table_base level reads \<Longrightarrow> start_level ctx \<le> 3 \<Longrightarrow>
   start_level ctx \<le> level \<and> level \<le> 3"
proof (induction rule: walk_state.induct)
  case walk_start
  then show ?case by simp
next
  case (walk_descend table_base level reads desc_addr desc_value desc)
  then have "level < 3" using is_table_level by blast
  with walk_descend show ?case using word8_succ_le by blast
qed

lemma walk_loop_leaf:
  assumes "level \<le> max_level ctx"
    and "desc_addr = get_descriptor_address table_base
           (get_index_bits (WalkContext.va ctx) level (granule_size ctx)) (granule_size ctx)"
    and "rd desc_addr = Some desc_value"
    and "desc = parse_descriptor desc_value level (granule_size ctx)"
    and "PageTableDescriptor.valid desc" and "\<not> is_table desc"
  shows "walk_loop rd ctx table_base level reads =
     Some (\<lparr>success = True,
            physical_addr = address desc +
               (WalkContext.va ctx AND
                  (page_size_value (get_page_size level (granule_size ctx)) - 1)),
            TranslationResult.memory_type = mem_attr desc,
            TranslationResult.permission = ap desc,
            TranslationResult.cacheable = (mem_attr desc = NORMAL_WB \<or> mem_attr desc = NORMAL_WT),
            TranslationResult.shareable = PageTableDescriptor.shareable desc,
            fault_reason = []\<rparr>,
           reads @ [desc_addr])"
  using assms
  by (subst walk_loop.simps) (simp add: Let_def TranslationResult_default_def)

text \<open>
  Claim C4. Let the walker's translate run with granule 12, 14 or 16, and let its loop
  reach a level \<open>level\<close> (with table base \<open>table_base\<close>) where the descriptor read is valid
  and not a table descriptor. Then translate returns success; the physical address is the
  descriptor's output address plus the bits of the input address below the page size of
  the granule/level table (granule 12: 512 MiB, 2 MiB, 4 KiB, 4 KiB at levels 0 to 3;
  granule 14: 1 GiB, 32 MiB, 16 KiB, 16 KiB; granule 16: 512 MiB at level 1, 64 KiB at
  levels 2 and 3); permission, memory type and shareability are the descriptor's, and
  cacheable holds exactly for Normal-WriteThrough and Normal-WriteBack. The level is at
  most 3, and at least 1 with granule 16.
\<close>

theorem walker_translate_leaf:
  assumes "granule = 12 \<or> granule = 14 \<or> granule = 16"
    and "ctx = \<lparr>WalkContext.va = v, ttb = table, granule_size = granule, ips_bits = ips_b,
                start_level = (if granule = 16 then 1 else 0), max_level = 3,
                WalkContext.stage = stg\<rparr>"
    and "walk_state rd ctx table_base level reads"
    and "desc_addr = get_descriptor_address table_base (get_index_bits v level granule) granule"
    and "rd desc_addr = Some desc_value"
    and "desc = parse_descriptor desc_value level granule"
    and "PageTableDescriptor.valid desc" and "\<not> is_table desc"
  shows "walker_translate rd v table granule ips_b stg =
     Some (\<lparr>success = True,
            physical_addr = address desc +
              (v AND ((if granule = 12 then
                         (if level = 0 then 0x20000000 else if level = 1 then 0x200000 else 0x1000)
                       else if granule = 14 then
                         (if level = 0 then 0x40000000 else if level = 1 then 0x2000000 else 0x4000)
                       else
                         (if level = 1 then 0x20000000 else 0x10000)) - 1)),
            TranslationResult.memory_type = mem_attr desc,
            TranslationResult.permission = ap desc,
            TranslationResult.cacheable = (mem_attr desc = NORMAL_WT \<or> mem_attr desc = NORMAL_WB),
            TranslationResult.shareable = PageTableDescriptor.shareable desc,
            fault_reason = []\<rparr>,
           reads @ [desc_addr])
     \<and> level \<le> 3 \<and> (if granule = 16 then 1 \<le> level else True)"
proof -
  have start: "start_level ctx \<le> 3" using assms(2) by simp
  from walk_state_level [OF assms(3) start]
  have lv: "start_level ctx \<le> level" "level \<le> 3" by simp_all
  have mx: "level \<le> max_level ctx" using lv(2) assms(2) by simp
  have wt: "walker_translate rd v table granule ips_b stg = walk_table rd ctx"
    using assms(1,2) by (auto simp: walker_translate_def)
  have sz: "page_size_value (get_page_size level granule) =
        (if granule = 12 then
           (if level = 0 then 0x20000000 else if level = 1 then 0x200000 else 0x1000)
         else if granule = 14 then
           (if level = 0 then 0x40000000 else if level = 1 then 0x2000000 else 0x4000)
         else
           (if level = 1 then 0x20000000 else 0x10000))"
    using assms(1) by (auto simp: get_page_size_def)
  have leaf: "walk_loop rd ctx table_base level reads =
     Some (\<lparr>success = True,
            physical_addr = address desc +
               (WalkContext.va ctx AND
                  (page_size_value (get_page_size level (granule_size ctx)) - 1)),
            TranslationResult.memory_type = mem_attr desc,
            TranslationResult.permission = ap desc,
            TranslationResult.cacheable = (mem_attr desc = NORMAL_WB \<or> mem_attr desc = NORMAL_WT),
            TranslationResult.shareable = PageTableDescriptor.shareable desc,
            fault_reason = []\<rparr>,
           reads @ [desc_addr])"
    using assms(2,4,5,6,7,8) by (intro walk_loop_leaf [OF mx]) simp_all
  have g: "granule_size ctx = granule" "WalkContext.va ctx = v" using assms(2) by simp_all
  have c: "(mem_attr desc = NORMAL_WB \<or> mem_attr desc = NORMAL_WT) =
           (mem_attr desc = NORMAL_WT \<or> mem_attr desc = NORMAL_WB)" by blast
  have res: "walker_translate rd v table granule ips_b stg =
     Some (\<lparr>success = True,
            physical_addr = address desc +
              (v AND (page_size_value (get_page_size level granule) - 1)),
            TranslationResult.memory_type = mem_attr desc,
            TranslationResult.permission = ap desc,
            TranslationResult.cacheable = (mem_attr desc = NORMAL_WT \<or> mem_attr desc = NORMAL_WB),
            TranslationResult.shareable = PageTableDescriptor.shareable desc,
            fault_reason = []\<rparr>,
           reads @ [desc_addr])"
    unfolding wt walk_state_loop [OF assms(3)] leaf g c ..
  have low: "if granule = 16 then 1 \<le> level else True"
    using lv(1) assms(2) by (cases "granule = 16") simp_all
  show ?thesis unfolding res sz using lv(2) low by simp
qed

theorem walker_translate_leaf_witness:
  "walker_translate
     (\<lambda>a. if a = 0x1000 then Some 0x2003 else if a = 0x2000 then Some 0x40000711 else Some 0)
     0x1234 0x1000 12 48 STAGE1 =
   Some (\<lparr>success = True, physical_addr = 0x40001234,
          TranslationResult.memory_type = NORMAL_WB,
          TranslationResult.permission = READ_WRITE,
          TranslationResult.cacheable = True, TranslationResult.shareable = True,
          fault_reason = []\<rparr>,
         [0x1000, 0x2000])"
proof -
  let ?rd = "\<lambda>a :: 64 word. if a = 0x1000 then Some (0x2003 :: 64 word)
                             else if a = 0x2000 then Some 0x40000711 else Some 0"
  let ?ctx = "\<lparr>WalkContext.va = 0x1234, ttb = 0x1000, granule_size = 12, ips_bits = 48,
               start_level = (if (12 :: 8 word) = 16 then 1 else 0), max_level = 3,
               WalkContext.stage = STAGE1\<rparr>"
  have p0: "parse_descriptor 0x2003 0 12 =
     \<lparr>PageTableDescriptor.valid = True, is_table = True, address = 0x2000, ap = READ_WRITE,
      mem_attr = DEVICE_nGnRnE, PageTableDescriptor.shareable = False, access_flag = False, dirty = False,
      contiguous = False, privileged_execute_never = False, execute_never = False\<rparr>"
    by (simp add: parse_descriptor_def Let_def PageTableDescriptor_default_def)
  have p1: "parse_descriptor 0x40000711 1 12 =
     \<lparr>PageTableDescriptor.valid = True, is_table = False, address = 0x40000000, ap = READ_WRITE,
      mem_attr = NORMAL_WB, PageTableDescriptor.shareable = True, access_flag = True, dirty = False,
      contiguous = False, privileged_execute_never = False, execute_never = False\<rparr>"
    by (simp add: parse_descriptor_def Let_def PageTableDescriptor_default_def)
  have i0: "get_descriptor_address 0x1000 (get_index_bits 0x1234 0 12) 12 = 0x1000"
    by (simp add: get_descriptor_address_def get_index_bits_def index_shift_def
        bits_per_level_def Let_def)
  have i1: "get_descriptor_address 0x2000 (get_index_bits 0x1234 1 12) 12 = 0x2000"
    by (simp add: get_descriptor_address_def get_index_bits_def index_shift_def
        bits_per_level_def Let_def)
  have s0: "walk_state ?rd ?ctx 0x1000 0 []"
    using walk_start [of ?rd ?ctx] by simp
  have s1: "walk_state ?rd ?ctx 0x2000 1 [0x1000]"
    using walk_descend [OF s0, of "0x1000" "0x2003" "parse_descriptor 0x2003 0 12"]
    by (simp add: i0 p0)
  show ?thesis
    using walker_translate_leaf [OF _ refl s1 refl _ refl, where desc_value = "0x40000711"]
    by (simp add: i1 p1)
qed

section \<open>The translation cache\<close>

lemma entries_lookup_loop: "entries (snd (lookup_loop t v sid a vm pss)) = entries t"
  by (induction pss) (simp_all add: Let_def split: option.splits)

lemma capacity_lookup_loop: "capacity (snd (lookup_loop t v sid a vm pss)) = capacity t"
  by (induction pss) (simp_all add: Let_def split: option.splits)


lemma tlb_lookup_entries: "entries (snd (tlb_lookup t v sid a vm)) = entries t"
  unfolding tlb_lookup_def by (rule entries_lookup_loop)



lemma timestamp_counter_evict_lru [simp]:
  "TLB.timestamp_counter (evict_lru t) = TLB.timestamp_counter t"
  by (simp add: evict_lru_def Let_def)

lemma lookup_insert_same:
  "Mapping.lookup (entries (tlb_insert t e)) (entry_key e) =
     Some (e\<lparr>TLBEntry.timestamp := TLB.timestamp_counter t\<rparr>)"
  by (simp add: tlb_insert_def Let_def)





section \<open>The recency list and the map agree\<close>

lemma in_keys_lookup: "(k \<in> Mapping.keys m) = (Mapping.lookup m k \<noteq> None)"
  by (simp add: keys_dom_lookup dom_def)

lemma keys_mapping_filter:
  "Mapping.keys (Mapping.filter P m) =
     {k \<in> Mapping.keys m. case Mapping.lookup m k of Some x \<Rightarrow> P k x | None \<Rightarrow> False}"
  by (auto simp: in_keys_lookup lookup_filter split: option.splits if_splits)

lemma set_butlast_distinct:
  assumes "distinct xs" and "xs \<noteq> []"
  shows "set (butlast xs) = set xs - {last xs}"
proof -
  from assms(2) have xs: "xs = butlast xs @ [last xs]" by simp
  with assms(1) have "distinct (butlast xs @ [last xs])" by simp
  then have "last xs \<notin> set (butlast xs)" by simp
  moreover have "set xs = set (butlast xs) \<union> {last xs}"
    by (subst xs) simp
  ultimately show ?thesis by auto
qed

lemma tlb_inv_size:
  assumes "tlb_inv t"
  shows "Mapping.size (entries t) = length (lru_list t)"
proof -
  from assms have "Mapping.keys (entries t) = set (lru_list t)" "distinct (lru_list t)"
    by (simp_all add: tlb_inv_def)
  then show ?thesis by (simp add: Mapping.size_def distinct_card)
qed

lemma tlb_inv_init: "tlb_inv (TLB_init n)"
  by (simp add: tlb_inv_def TLB_init_def)

lemma tlb_inv_lookup_loop:
  "tlb_inv t \<Longrightarrow> tlb_inv (snd (lookup_loop t v sid a vm pss))"
proof (induction pss)
  case Nil
  then show ?case by (simp add: tlb_inv_def)
next
  case (Cons ps rest)
  let ?k = "\<lparr>va_base = get_page_base v ps, TLBKey.stream_id = sid, TLBKey.asid = a,
             TLBKey.vmid = vm\<rparr>"
  show ?case
  proof (cases "Mapping.lookup (entries t) ?k")
    case None
    with Cons show ?thesis by (simp add: Let_def)
  next
    case (Some e)
    then have "?k \<in> Mapping.keys (entries t)" by (simp add: in_keys_lookup)
    with Cons.prems have "?k \<in> set (lru_list t)" by (simp add: tlb_inv_def)
    with Cons.prems Some show ?thesis
      by (auto simp: Let_def tlb_inv_def distinct_removeAll)
  qed
qed

lemma tlb_inv_evict_lru: "tlb_inv t \<Longrightarrow> tlb_inv (evict_lru t)"
  by (auto simp: tlb_inv_def evict_lru_def Let_def distinct_butlast set_butlast_distinct)

lemma tlb_inv_tlb_insert:
  assumes "tlb_inv t"
  shows "tlb_inv (tlb_insert t e)"
proof (cases "Mapping.lookup (entries t) (entry_key e) \<noteq> None")
  case True
  with assms show ?thesis
    by (auto simp: tlb_insert_def Let_def tlb_inv_def in_keys_lookup distinct_removeAll)
next
  case False
  then have notin: "entry_key e \<notin> Mapping.keys (entries t)" by (simp add: in_keys_lookup)
  define t1 where "t1 = (if capacity t \<le> Mapping.size (entries t) then evict_lru t else t)"
  have inv1: "tlb_inv t1" using assms by (simp add: t1_def tlb_inv_evict_lru)
  have "Mapping.keys (entries t1) \<subseteq> Mapping.keys (entries t)"
    by (auto simp: t1_def evict_lru_def Let_def)
  with notin have "entry_key e \<notin> Mapping.keys (entries t1)" by blast
  with inv1 have "tlb_inv (t1\<lparr>TLB.timestamp_counter := TLB.timestamp_counter t1 + 1,
      entries := Mapping.update (entry_key e)
        (e\<lparr>TLBEntry.timestamp := TLB.timestamp_counter t1\<rparr>) (entries t1),
      lru_list := entry_key e # lru_list t1\<rparr>)"
    by (simp add: tlb_inv_def)
  moreover from False have "tlb_insert t e =
      t1\<lparr>TLB.timestamp_counter := TLB.timestamp_counter t1 + 1,
      entries := Mapping.update (entry_key e)
        (e\<lparr>TLBEntry.timestamp := TLB.timestamp_counter t1\<rparr>) (entries t1),
      lru_list := entry_key e # lru_list t1\<rparr>"
    by (simp add: tlb_insert_def Let_def t1_def)
  ultimately show ?thesis by simp
qed

lemma tlb_inv_erase_matching:
  assumes "tlb_inv t"
  shows "tlb_inv (erase_matching P t)"
  using assms
  by (auto simp: tlb_inv_def erase_matching_def keys_mapping_filter in_keys_lookup
      split: option.splits)

lemma tlb_inv_invalidate_by_va: "tlb_inv t \<Longrightarrow> tlb_inv (invalidate_by_va t v a)"
  by (simp add: invalidate_by_va_def tlb_inv_erase_matching)

lemma tlb_inv_tlb_apply: "tlb_inv t \<Longrightarrow> tlb_inv (tlb_apply t op)"
proof (cases op)
  case (Lookup v sid a vm)
  assume "tlb_inv t"
  with Lookup show ?thesis
    by (simp add: tlb_lookup_def tlb_inv_lookup_loop del: lookup_loop.simps)
next
  case (Insert e)
  assume "tlb_inv t"
  with Insert show ?thesis by (simp add: tlb_inv_tlb_insert)
next
  case InvalidateAll
  then show ?thesis by (simp add: invalidate_all_def tlb_inv_def)
next
  case (InvalidateByAsid a)
  assume "tlb_inv t"
  with InvalidateByAsid show ?thesis by (simp add: invalidate_by_asid_def tlb_inv_erase_matching)
next
  case (InvalidateByVmid vm)
  assume "tlb_inv t"
  with InvalidateByVmid show ?thesis by (simp add: invalidate_by_vmid_def tlb_inv_erase_matching)
next
  case (InvalidateByVa v a)
  assume "tlb_inv t"
  with InvalidateByVa show ?thesis by (simp add: tlb_inv_invalidate_by_va)
next
  case (InvalidateByStream sid)
  assume "tlb_inv t"
  with InvalidateByStream show ?thesis
    by (simp add: invalidate_by_stream_def tlb_inv_erase_matching)
qed


section \<open>The size of the cache\<close>

lemma capacity_evict_lru [simp]: "capacity (evict_lru t) = capacity t"
  by (simp add: evict_lru_def Let_def)

lemma capacity_tlb_insert [simp]: "capacity (tlb_insert t e) = capacity t"
  by (simp add: tlb_insert_def Let_def)

lemma capacity_erase_matching [simp]: "capacity (erase_matching P t) = capacity t"
  by (simp add: erase_matching_def)

lemma capacity_tlb_apply: "capacity (tlb_apply t op) = capacity t"
  by (cases op)
    (simp_all add: tlb_lookup_def capacity_lookup_loop invalidate_all_def
      invalidate_by_asid_def invalidate_by_vmid_def invalidate_by_va_def
      invalidate_by_stream_def del: lookup_loop.simps)

lemma lru_list_lookup_loop_length:
  "tlb_inv t \<Longrightarrow> length (lru_list (snd (lookup_loop t v sid a vm pss))) = length (lru_list t)"
proof (induction pss)
  case Nil
  then show ?case by simp
next
  case (Cons ps rest)
  let ?k = "\<lparr>va_base = get_page_base v ps, TLBKey.stream_id = sid, TLBKey.asid = a,
             TLBKey.vmid = vm\<rparr>"
  show ?case
  proof (cases "Mapping.lookup (entries t) ?k")
    case None
    with Cons show ?thesis by (simp add: Let_def)
  next
    case (Some e)
    then have "?k \<in> Mapping.keys (entries t)" by (simp add: in_keys_lookup)
    with Cons.prems have "?k \<in> set (lru_list t)" "distinct (lru_list t)"
      by (simp_all add: tlb_inv_def)
    then have "length (removeAll ?k (lru_list t)) = length (lru_list t) - 1"
      by (simp add: distinct_remove1_removeAll [symmetric] length_remove1)
    moreover from \<open>?k \<in> set (lru_list t)\<close> have "0 < length (lru_list t)"
      by (cases "lru_list t") simp_all
    ultimately show ?thesis using Some by (simp add: Let_def)
  qed
qed

lemma length_lru_list_tlb_insert:
  assumes "tlb_inv t" and "0 < capacity t" and "length (lru_list t) \<le> capacity t"
  shows "length (lru_list (tlb_insert t e)) \<le> capacity t"
proof (cases "Mapping.lookup (entries t) (entry_key e) \<noteq> None")
  case True
  then have "entry_key e \<in> Mapping.keys (entries t)" by (simp add: in_keys_lookup)
  with assms(1) have k: "entry_key e \<in> set (lru_list t)" "distinct (lru_list t)"
    by (simp_all add: tlb_inv_def)
  then have "length (removeAll (entry_key e) (lru_list t)) = length (lru_list t) - 1"
    by (simp add: distinct_remove1_removeAll [symmetric] length_remove1)
  moreover from k(1) have "0 < length (lru_list t)" by (cases "lru_list t") simp_all
  ultimately show ?thesis using True assms(3) by (simp add: tlb_insert_def Let_def)
next
  case False
  show ?thesis
  proof (cases "capacity t \<le> Mapping.size (entries t)")
    case True
    with assms have "lru_list t \<noteq> []" by (auto simp: tlb_inv_size)
    with False True assms(3) show ?thesis
      by (simp add: tlb_insert_def Let_def evict_lru_def)
  next
    case full: False
    with assms(1) have "length (lru_list t) < capacity t" by (simp add: tlb_inv_size)
    with False full show ?thesis by (simp add: tlb_insert_def Let_def)
  qed
qed

lemma length_lru_list_erase_matching:
  "length (lru_list (erase_matching P t)) \<le> length (lru_list t)"
  by (simp add: erase_matching_def)

lemma length_lru_list_invalidate_by_va:
  "length (lru_list (invalidate_by_va t v a)) \<le> length (lru_list t)"
proof -
  have "length (lru_list (foldl (\<lambda>t ps. erase_matching (P ps) t) t pss)) \<le> length (lru_list t)"
    for P :: "PageSize \<Rightarrow> TLBEntry \<Rightarrow> bool" and pss
  proof (induction pss arbitrary: t)
    case Nil
    show ?case by simp
  next
    case (Cons ps pss)
    from Cons [of "erase_matching (P ps) t"] length_lru_list_erase_matching [of "P ps" t]
    show ?case by simp
  qed
  then show ?thesis unfolding invalidate_by_va_def .
qed

lemma length_lru_list_tlb_apply:
  assumes "tlb_inv t" and "0 < capacity t" and "length (lru_list t) \<le> capacity t"
  shows "length (lru_list (tlb_apply t op)) \<le> capacity t"
proof (cases op)
  case (Lookup v sid a vm)
  with assms show ?thesis
    by (simp add: tlb_lookup_def lru_list_lookup_loop_length del: lookup_loop.simps)
next
  case (Insert e)
  with assms show ?thesis by (simp add: length_lru_list_tlb_insert)
next
  case InvalidateAll
  then show ?thesis by (simp add: invalidate_all_def)
next
  case (InvalidateByAsid a)
  with assms(3) length_lru_list_erase_matching [of "\<lambda>e. TLBEntry.asid e = a" t]
  show ?thesis by (simp add: invalidate_by_asid_def)
next
  case (InvalidateByVmid vm)
  with assms(3) length_lru_list_erase_matching [of "\<lambda>e. TLBEntry.vmid e = vm" t]
  show ?thesis by (simp add: invalidate_by_vmid_def)
next
  case (InvalidateByVa v a)
  with assms(3) length_lru_list_invalidate_by_va [of t v a]
  show ?thesis by simp
next
  case (InvalidateByStream sid)
  with assms(3) length_lru_list_erase_matching [of "\<lambda>e. TLBEntry.stream_id e = sid" t]
  show ?thesis by (simp add: invalidate_by_stream_def)
qed

text \<open>
  With a capacity of at least one, no sequence of lookups, insertions and invalidations
  on a new cache makes it hold more entries than its capacity.
\<close>

lemma tlb_run_bounded:
  assumes "0 < n"
  shows "tlb_inv (foldl tlb_apply (TLB_init n) ops) \<and>
         capacity (foldl tlb_apply (TLB_init n) ops) = n \<and>
         Mapping.size (entries (foldl tlb_apply (TLB_init n) ops)) \<le> n"
proof -
  have "tlb_inv (foldl tlb_apply (TLB_init n) ops) \<and>
        capacity (foldl tlb_apply (TLB_init n) ops) = n \<and>
        length (lru_list (foldl tlb_apply (TLB_init n) ops)) \<le> n"
  proof (induction ops rule: rev_induct)
    case Nil
    show ?case by (simp add: tlb_inv_init) (simp add: TLB_init_def)
  next
    case (snoc op ops)
    let ?t = "foldl tlb_apply (TLB_init n) ops"
    from snoc have t: "tlb_inv ?t" "capacity ?t = n" "length (lru_list ?t) \<le> capacity ?t"
      by simp_all
    from assms t(2) have "0 < capacity ?t" by simp
    from length_lru_list_tlb_apply [OF t(1) this t(3), of op] tlb_inv_tlb_apply [OF t(1), of op]
      capacity_tlb_apply [of ?t op] t(2)
    show ?case by simp
  qed
  then show ?thesis by (simp add: tlb_inv_size)
qed

section \<open>Insertions into a new cache\<close>

lemma tlb_insert_new_key:
  assumes "tlb_inv t" and "entry_key e \<notin> set (lru_list t)" and "0 < capacity t"
  shows "lru_list (tlb_insert t e) =
           entry_key e # (if capacity t \<le> length (lru_list t) then butlast (lru_list t)
                          else lru_list t)"
proof -
  from assms(1,2) have "Mapping.lookup (entries t) (entry_key e) = None"
    by (simp add: tlb_inv_def in_keys_lookup)
  moreover have "lru_list t \<noteq> []" if "capacity t \<le> length (lru_list t)"
    using that assms(3) by auto
  ultimately show ?thesis
    using assms(1) by (simp add: tlb_insert_def Let_def tlb_inv_size evict_lru_def)
qed

lemma butlast_take_rev:
  assumes "0 < n" and "n \<le> length ks"
  shows "butlast (take n ks) = take (n - 1) ks"
  using assms by (simp add: butlast_take)

text \<open>
  With a capacity \<open>n\<close> of at least one, inserting entries with pairwise distinct keys
  into a new cache leaves the recency list holding the last \<open>n\<close> keys, newest first.
\<close>

lemma tlb_insert_sequence:
  assumes "0 < n" and "distinct (map entry_key es)"
  shows "tlb_inv (foldl tlb_insert (TLB_init n) es) \<and>
         capacity (foldl tlb_insert (TLB_init n) es) = n \<and>
         lru_list (foldl tlb_insert (TLB_init n) es) = take n (rev (map entry_key es))"
  using assms(2)
proof (induction es rule: rev_induct)
  case Nil
  show ?case by (simp add: tlb_inv_init) (simp add: TLB_init_def)
next
  case (snoc e es)
  let ?t = "foldl tlb_insert (TLB_init n) es"
  let ?ks = "map entry_key es"
  from snoc.prems have d: "distinct ?ks" "entry_key e \<notin> set ?ks" by simp_all
  from snoc.IH [OF d(1)]
  have t: "tlb_inv ?t" "capacity ?t = n" "lru_list ?t = take n (rev ?ks)" by simp_all
  have notin: "entry_key e \<notin> set (lru_list ?t)"
    using d(2) unfolding t(3) by (auto dest: in_set_takeD)
  have cap: "0 < capacity ?t" using assms(1) t(2) by simp
  have lru: "lru_list (tlb_insert ?t e) = take n (rev (map entry_key (es @ [e])))"
  proof (cases "n \<le> length ?ks")
    case True
    then have "butlast (take n (rev ?ks)) = take (n - 1) (rev ?ks)"
      using assms(1) by (simp add: butlast_take)
    moreover from assms(1) have "take n (entry_key e # rev ?ks) =
        entry_key e # take (n - 1) (rev ?ks)"
      by (cases n) simp_all
    ultimately show ?thesis
      using True tlb_insert_new_key [OF t(1) notin cap] by (simp add: t(2,3))
  next
    case False
    then have "take n (rev ?ks) = rev ?ks" "take n (entry_key e # rev ?ks) = entry_key e # rev ?ks"
      by simp_all
    with False show ?thesis
      using tlb_insert_new_key [OF t(1) notin cap] by (simp add: t(2,3))
  qed
  from tlb_inv_tlb_insert [OF t(1), of e] t(2) lru show ?case by simp
qed

text \<open>
  So after \<open>n + k\<close> such insertions the first \<open>k\<close> keys are not in the cache, for a
  capacity \<open>n\<close> of at least one.
\<close>

lemma tlb_overflow_evicts_oldest:
  assumes "0 < n" and "distinct (map entry_key es)" and "length es = n + k"
    and "e \<in> set (take k es)"
  shows "Mapping.lookup (entries (foldl tlb_insert (TLB_init n) es)) (entry_key e) = None"
proof -
  let ?t = "foldl tlb_insert (TLB_init n) es"
  let ?ks = "map entry_key es"
  from tlb_insert_sequence [OF assms(1,2)]
  have t: "tlb_inv ?t" "lru_list ?t = take n (rev ?ks)" by simp_all
  have "take n (rev ?ks) = rev (drop k ?ks)"
    using assms(3) by (simp add: take_rev)
  then have keys: "Mapping.keys (entries ?t) = set (drop k ?ks)"
    using t by (simp add: tlb_inv_def)
  have "set (take k ?ks) \<inter> set (drop k ?ks) = {}"
    using assms(2) by (rule set_take_disj_set_drop_if_distinct) simp
  moreover from assms(4) have "entry_key e \<in> set (take k ?ks)"
    by (simp add: take_map)
  ultimately have "entry_key e \<notin> Mapping.keys (entries ?t)" using keys by blast
  then show ?thesis by (simp add: in_keys_lookup)
qed

text \<open>
  Claim C8 at capacity 0. A cache created with capacity 0 holds one entry after a single
  insertion: \<open>insert\<close> finds the map full, \<open>evict_lru\<close> returns at once because the
  recency list is empty, and the entry is stored all the same.
\<close>

theorem tlb_capacity_zero_holds_entry:
  "capacity (foldl tlb_apply (TLB_init 0) [Insert TLBEntry_default]) = 0 \<and>
   Mapping.size (entries (foldl tlb_apply (TLB_init 0) [Insert TLBEntry_default])) = 1"
  by (simp add: tlb_insert_def TLB_init_def evict_lru_def Let_def Mapping.size_update)

text \<open>
  Claim C7 at capacity 0. After \<open>0 + 1\<close> insertions into a new cache of capacity 0 the
  key inserted is in the cache; after \<open>0 + 2\<close> insertions with distinct keys the first
  key is gone and the second is in the cache.
\<close>

theorem tlb_capacity_zero_keeps_newest:
  "Mapping.lookup (entries (foldl tlb_insert (TLB_init 0) [TLBEntry_default]))
     (entry_key TLBEntry_default) = Some TLBEntry_default \<and>
   entry_key TLBEntry_default \<noteq> entry_key (TLBEntry_default\<lparr>TLBEntry.va := 0x1000\<rparr>) \<and>
   Mapping.lookup
     (entries (foldl tlb_insert (TLB_init 0)
        [TLBEntry_default, TLBEntry_default\<lparr>TLBEntry.va := 0x1000\<rparr>]))
     (entry_key TLBEntry_default) = None \<and>
   Mapping.lookup
     (entries (foldl tlb_insert (TLB_init 0)
        [TLBEntry_default, TLBEntry_default\<lparr>TLBEntry.va := 0x1000\<rparr>]))
     (entry_key (TLBEntry_default\<lparr>TLBEntry.va := 0x1000\<rparr>)) =
   Some (TLBEntry_default\<lparr>TLBEntry.va := 0x1000, TLBEntry.timestamp := 1\<rparr>)"
proof -
  let ?e1 = "TLBEntry_default"
  let ?e2 = "TLBEntry_default\<lparr>TLBEntry.va := 0x1000\<rparr>"
  have k: "entry_key ?e1 =
      \<lparr>va_base = 0, TLBKey.stream_id = 0, TLBKey.asid = 0, TLBKey.vmid = 0\<rparr>"
    "entry_key ?e2 =
      \<lparr>va_base = 0x1000, TLBKey.stream_id = 0, TLBKey.asid = 0, TLBKey.vmid = 0\<rparr>"
    by (simp_all add: entry_key_def TLBEntry_default_def get_page_base_def)
  define T1 where "T1 = tlb_insert (TLB_init 0) ?e1"
  have t1: "T1 =
      \<lparr>capacity = 0, timestamp_counter = 1, hit_count = 0, miss_count = 0,
       entries = Mapping.update (entry_key ?e1) ?e1 Mapping.empty,
       lru_list = [entry_key ?e1]\<rparr>"
    by (simp add: T1_def tlb_insert_def TLB_init_def evict_lru_def Let_def TLBEntry_default_def)
  have t2: "tlb_insert T1 ?e2 =
      \<lparr>capacity = 0, timestamp_counter = 2, hit_count = 0, miss_count = 0,
       entries = Mapping.update (entry_key ?e2) (?e2\<lparr>TLBEntry.timestamp := 1\<rparr>)
                   (Mapping.delete (entry_key ?e1)
                      (Mapping.update (entry_key ?e1) ?e1 Mapping.empty)),
       lru_list = [entry_key ?e2]\<rparr>"
    unfolding t1 by (simp add: tlb_insert_def evict_lru_def Let_def k)
  have f1: "foldl tlb_insert (TLB_init 0) [?e1] = T1" by (simp add: T1_def)
  have f2: "foldl tlb_insert (TLB_init 0) [?e1, ?e2] = tlb_insert T1 ?e2" by (simp add: T1_def)
  have ne: "entry_key ?e1 \<noteq> entry_key ?e2" by (simp add: k)
  show ?thesis
    unfolding f1 f2 t2 using ne by (simp add: t1)
qed

section \<open>The orchestrator\<close>

lemma generate_event_same_unit:
  "same_unit s (generate_event s ft sid a vm v d)"
  by (simp add: generate_event_def Let_def)

lemma generate_event_walks:
  "page_table_walks (stats (generate_event s ft sid a vm v d)) = page_table_walks (stats s)"
  by (simp add: generate_event_def Let_def)

lemma fault_event_recorded:
  "fault_recorded s
     (count_translation_fault (generate_event s TRANSLATION_FAULT sid a vm v d)) d"
  by (simp add: generate_event_def count_translation_fault_def Let_def)

lemma fault_event_same_unit:
  "same_unit s (count_translation_fault (generate_event s ft sid a vm v d))"
  by (simp add: generate_event_def count_translation_fault_def Let_def)

lemma count_page_table_walk_same_unit:
  "same_unit s (count_page_table_walk s) \<and> no_fault_recorded s (count_page_table_walk s)"
  by (simp add: count_page_table_walk_def)

lemma walk_outcome_effect:
  assumes "s' = (if \<not> success r then
                   count_translation_fault
                     (generate_event (count_page_table_walk s) TRANSLATION_FAULT sid a vm v
                        (fault_reason r))
                 else count_page_table_walk s)"
  shows "same_unit s s' \<and>
         (if success r then no_fault_recorded s s' else fault_recorded s s' (fault_reason r))"
proof (cases "success r")
  case True
  with assms show ?thesis using count_page_table_walk_same_unit [of s] by simp
next
  case False
  let ?s1 = "count_page_table_walk s"
  from False assms
  have s': "s' = count_translation_fault
                   (generate_event ?s1 TRANSLATION_FAULT sid a vm v (fault_reason r))"
    by simp
  show ?thesis
    using False count_page_table_walk_same_unit [of s]
      fault_event_recorded [of ?s1 sid a vm v "fault_reason r"]
      fault_event_same_unit [of ?s1 TRANSLATION_FAULT sid a vm v "fault_reason r"]
    unfolding s' [symmetric] by auto
qed

lemma translate_stage1_effect:
  assumes "translate_stage1 s v ste cd = Some (r, s')"
  shows "same_unit s s' \<and>
         (if success r then no_fault_recorded s s' else fault_recorded s s' (fault_reason r))"
proof (cases "ContextDescriptor.valid cd")
  case False
  with assms have r: "r = TranslationResult_default\<lparr>fault_reason := ''Invalid context descriptor''\<rparr>"
    and s': "s' = count_translation_fault (generate_event s TRANSLATION_FAULT 0
                    (ContextDescriptor.asid cd) (StreamTableEntry.vmid ste) v (fault_reason r))"
    by (auto simp: translate_stage1_def Let_def)
  have "\<not> success r" by (simp add: r TranslationResult_default_def)
  then show ?thesis
    using fault_event_recorded [of s 0 "ContextDescriptor.asid cd" "StreamTableEntry.vmid ste" v
        "fault_reason r"]
      fault_event_same_unit [of s TRANSLATION_FAULT 0 "ContextDescriptor.asid cd"
        "StreamTableEntry.vmid ste" v "fault_reason r"]
    unfolding s' [symmetric] by simp
next
  case True
  with assms show ?thesis
    by (intro walk_outcome_effect [where sid = 0 and a = "ContextDescriptor.asid cd"
          and vm = "StreamTableEntry.vmid ste" and v = v])
      (auto simp: translate_stage1_def Let_def split: option.splits if_splits)
qed

lemma translate_stage2_effect:
  assumes "translate_stage2 s ipa ste = Some (r, s')"
  shows "same_unit s s' \<and>
         (if success r then no_fault_recorded s s' else fault_recorded s s' (fault_reason r))"
proof (cases "s2_enabled ste")
  case False
  with assms show ?thesis
    by (auto simp: translate_stage2_def TranslationResult_default_def)
next
  case True
  with assms show ?thesis
    by (intro walk_outcome_effect [where sid = 0 and a = 0
          and vm = "StreamTableEntry.vmid ste" and v = ipa])
      (auto simp: translate_stage2_def Let_def split: option.splits if_splits)
qed

lemma translate_stage1_returns:
  "\<exists>r s'. translate_stage1 s v ste cd = Some (r, s')"
  using walker_translate_returns [of "memory_read s" v "translation_table_base cd"
      "translation_granule cd" "ips cd" STAGE1]
  by (auto simp: translate_stage1_def Let_def)

lemma translate_stage2_returns:
  "\<exists>r s'. translate_stage2 s ipa ste = Some (r, s')"
  using walker_translate_returns [of "memory_read s" ipa "s2_translation_table_base ste"
      "s2_granule ste" 48 STAGE2]
  by (auto simp: translate_stage2_def Let_def)

lemma translate_stages_effect:
  assumes "translate_stages s v sid a vm ste = Some x"
  shows "case x of
           Inl (r, s') \<Rightarrow>
             \<not> success r \<and> same_unit s s' \<and> fault_recorded s s' (fault_reason r)
         | Inr (r, s') \<Rightarrow>
             same_unit s s' \<and>
             (if success r then no_fault_recorded s s' else fault_recorded s s' (fault_reason r))"
proof (cases "s1_enabled ste")
  case s1: True
  obtain r1 s1 where st1: "translate_stage1 s v ste (get_context_descriptor s sid a) = Some (r1, s1)"
    using translate_stage1_returns by blast
  note e1 = translate_stage1_effect [OF st1]
  show ?thesis
  proof (cases "success r1")
    case False
    with assms s1 st1 have "x = Inl (r1, s1)"
      by (simp add: translate_stages_def Let_def)
    with e1 False show ?thesis by simp
  next
    case ok: True
    show ?thesis
    proof (cases "s2_enabled ste")
      case False
      with assms s1 st1 ok have "x = Inr (r1, s1)"
        by (simp add: translate_stages_def Let_def)
      with e1 ok show ?thesis by simp
    next
      case True
      obtain r2 s2 where st2: "translate_stage2 s1 (physical_addr r1) ste = Some (r2, s2)"
        using translate_stage2_returns by blast
      note e2 = translate_stage2_effect [OF st2]
      from assms s1 st1 ok True st2 have "x = Inr (r2, s2)"
        by (simp add: translate_stages_def Let_def)
      with e1 e2 ok show ?thesis by auto
    qed
  qed
next
  case s1: False
  show ?thesis
  proof (cases "s2_enabled ste")
    case True
    obtain r2 s2 where st2: "translate_stage2 s v ste = Some (r2, s2)"
      using translate_stage2_returns by blast
    note e2 = translate_stage2_effect [OF st2]
    from assms s1 True st2 have "x = Inr (r2, s2)"
      by (simp add: translate_stages_def Let_def)
    with e2 show ?thesis by simp
  next
    case False
    let ?d = "''No translation stages enabled''"
    from assms s1 False
    have x: "x = Inl (TranslationResult_default\<lparr>fault_reason := ?d\<rparr>,
                      count_translation_fault (generate_event s TRANSLATION_FAULT sid a vm v ?d))"
      by (simp add: translate_stages_def Let_def)
    have f: "\<not> success (TranslationResult_default\<lparr>fault_reason := ?d\<rparr>)"
      "fault_reason (TranslationResult_default\<lparr>fault_reason := ?d\<rparr>) = ?d"
      by (simp_all add: TranslationResult_default_def)
    show ?thesis
      unfolding x sum.case prod.case f(2)
      by (rule conjI [OF f(1) conjI [OF fault_event_same_unit fault_event_recorded]])
  qed
qed

lemma translate_stages_returns:
  "\<exists>x. translate_stages s v sid a vm ste = Some x"
proof -
  obtain r1 s1 where st1: "translate_stage1 s v ste (get_context_descriptor s sid a) = Some (r1, s1)"
    using translate_stage1_returns by blast
  obtain r2 s2 where st2: "translate_stage2 s1 (physical_addr r1) ste = Some (r2, s2)"
    using translate_stage2_returns by blast
  obtain r3 s3 where st3: "translate_stage2 s v ste = Some (r3, s3)"
    using translate_stage2_returns by blast
  show ?thesis
    by (simp add: translate_stages_def Let_def st1 st2 st3)
qed


text \<open>The cache-hit path of translate.\<close>

lemma translate_hit:
  assumes "enabled s" and "tlb_lookup (tlb s) v sid a vm = (Some e, t)"
  shows "\<exists>s'. translate s v sid a vm =
           Some (\<lparr>success = True, physical_addr = pa e,
                  TranslationResult.memory_type = TLBEntry.memory_type e,
                  TranslationResult.permission = TLBEntry.permission e,
                  TranslationResult.cacheable = TLBEntry.cacheable e,
                  TranslationResult.shareable = TLBEntry.shareable e,
                  fault_reason = []\<rparr>, s') \<and>
         tlb s' = t \<and> enabled s' \<and>
         tlb_hits (stats s') = tlb_hits (stats s) + 1 \<and>
         tlb_misses (stats s') = tlb_misses (stats s) \<and>
         page_table_walks (stats s') = page_table_walks (stats s) \<and>
         total_translations (stats s') = total_translations (stats s) + 1 \<and>
         no_fault_recorded s s'"
  using assms by (simp add: translate_def Let_def TranslationResult_default_def)

text \<open>The entry step 4 of translate builds for a successful result.\<close>

lemma translate_fill_success:
  assumes "success r"
  shows "tlb (translate_fill s v sid a vm ste r) =
           tlb_insert (tlb s)
             \<lparr>TLBEntry.va = v, pa = physical_addr r, TLBEntry.stream_id = sid,
              TLBEntry.asid = a, TLBEntry.vmid = vm, page_size = SIZE_4KB,
              TLBEntry.memory_type = TranslationResult.memory_type r,
              TLBEntry.permission = TranslationResult.permission r,
              TLBEntry.cacheable = TranslationResult.cacheable r,
              TLBEntry.shareable = TranslationResult.shareable r,
              TLBEntry.stage = (if s1_enabled ste then STAGE1 else STAGE2),
              TLBEntry.timestamp = 0\<rparr>"
  using assms by (simp add: translate_fill_def Let_def TLBEntry_default_def)

lemma translate_fill_frame:
  "enabled (translate_fill s v sid a vm ste r) = enabled s \<and>
   config (translate_fill s v sid a vm ste r) = config s \<and>
   no_fault_recorded s (translate_fill s v sid a vm ste r)"
  by (simp add: translate_fill_def Let_def)

lemma translate_fill_failure: "\<not> success r \<Longrightarrow> translate_fill s v sid a vm ste r = s"
  by (simp add: translate_fill_def)

text \<open>The cache-miss path of translate.\<close>

lemma translate_miss:
  assumes en: "enabled s" and miss: "tlb_lookup (tlb s) v sid a vm = (None, t)"
    and tr: "translate s v sid a vm = Some (r, s')"
  shows "enabled s' \<and> config s' = config s \<and>
     (if success r then
        no_fault_recorded s s' \<and>
        tlb s' = tlb_insert t
             \<lparr>TLBEntry.va = v, pa = physical_addr r, TLBEntry.stream_id = sid,
              TLBEntry.asid = a, TLBEntry.vmid = vm, page_size = SIZE_4KB,
              TLBEntry.memory_type = TranslationResult.memory_type r,
              TLBEntry.permission = TranslationResult.permission r,
              TLBEntry.cacheable = TranslationResult.cacheable r,
              TLBEntry.shareable = TranslationResult.shareable r,
              TLBEntry.stage =
                (if s1_enabled (get_stream_table_entry s sid) then STAGE1 else STAGE2),
              TLBEntry.timestamp = 0\<rparr>
      else fault_recorded s s' (fault_reason r) \<and> tlb s' = t)"
proof -
  define s0 where
    "s0 = s\<lparr>stats := (stats s)\<lparr>total_translations := total_translations (stats s) + 1\<rparr>\<rparr>"
  define s1 where
    "s1 = s0\<lparr>tlb := t, stats := (stats s0)\<lparr>tlb_misses := tlb_misses (stats s0) + 1\<rparr>\<rparr>"
  define ste where "ste = get_stream_table_entry s1 sid"
  have ste: "ste = get_stream_table_entry s sid"
    by (simp add: ste_def s1_def s0_def get_stream_table_entry_def)
  have s1: "tlb s1 = t" "enabled s1" "config s1 = config s" "event_queue s1 = event_queue s"
    "translation_faults (stats s1) = translation_faults (stats s)"
    "events_generated (stats s1) = events_generated (stats s)"
    using en by (simp_all add: s1_def s0_def)
  have tr1: "translate s v sid a vm =
     (if \<not> StreamTableEntry.valid ste then
        let result = TranslationResult_default\<lparr>fault_reason := ''Invalid stream table entry''\<rparr>;
            s2 = generate_event s1 TRANSLATION_FAULT sid a vm v (fault_reason result);
            s2 = count_translation_fault s2
        in Some (result, s2)
      else
        case translate_stages s1 v sid a vm ste of
          None \<Rightarrow> None
        | Some (Inl returned) \<Rightarrow> Some returned
        | Some (Inr (result, s2)) \<Rightarrow> Some (result, translate_fill s2 v sid a vm ste result))"
    unfolding ste_def s1_def s0_def using en miss
    by (simp add: translate_def Let_def cong: option.case_cong sum.case_cong)
  show ?thesis
  proof (cases "StreamTableEntry.valid ste")
    case False
    let ?d = "''Invalid stream table entry''"
    from False tr tr1
    have r: "r = TranslationResult_default\<lparr>fault_reason := ?d\<rparr>"
      and s': "s' = count_translation_fault (generate_event s1 TRANSLATION_FAULT sid a vm v ?d)"
      by (auto simp: Let_def)
    have f: "\<not> success r" "fault_reason r = ?d"
      by (simp_all add: r TranslationResult_default_def)
    have a: "fault_recorded s1 s' ?d" unfolding s' by (rule fault_event_recorded)
    have b: "same_unit s1 s'" unfolding s' by (rule fault_event_same_unit)
    from a b s1 f show ?thesis by auto
  next
    case True
    obtain x where x: "translate_stages s1 v sid a vm ste = Some x"
      using translate_stages_returns by blast
    note eff = translate_stages_effect [OF x]
    show ?thesis
    proof (cases x)
      case (Inl p)
      obtain r1 s2 where p: "p = (r1, s2)" by (cases p)
      from True tr tr1 x Inl p have "r1 = r" "s2 = s'" by auto
      with eff Inl p s1 show ?thesis by auto
    next
      case (Inr p)
      obtain r1 s2 where p: "p = (r1, s2)" by (cases p)
      from True tr tr1 x Inr p
      have rs: "r1 = r" "s' = translate_fill s2 v sid a vm ste r" by auto
      from eff Inr p rs(1)
      have e2: "same_unit s1 s2"
        "if success r then no_fault_recorded s1 s2 else fault_recorded s1 s2 (fault_reason r)"
        by simp_all
      show ?thesis
      proof (cases "success r")
        case True
        from translate_fill_success [OF True, of s2 v sid a vm ste]
          translate_fill_frame [of s2 v sid a vm ste r] e2 s1 True
        show ?thesis unfolding rs(2) ste [symmetric] by auto
      next
        case False
        from translate_fill_failure [OF False, of s2 v sid a vm ste] e2 s1 False
        show ?thesis unfolding rs(2) by auto
      qed
    qed
  qed
qed

lemma translate_returns: "\<exists>r s'. translate s v sid a vm = Some (r, s')"
proof -
  obtain x where "translate_stages
      (s\<lparr>stats := (stats s)\<lparr>total_translations := total_translations (stats s) + 1\<rparr>,
         tlb := snd (tlb_lookup (tlb s) v sid a vm),
         stats := (stats s)\<lparr>total_translations := total_translations (stats s) + 1,
                            tlb_misses := tlb_misses (stats s) + 1\<rparr>\<rparr>)
      v sid a vm
      (get_stream_table_entry s sid) = Some x"
    using translate_stages_returns by blast
  then show ?thesis
    by (cases x)
      (auto simp: translate_def Let_def get_stream_table_entry_def
        split: prod.splits option.splits sum.splits)
qed


lemma translate_success_enabled:
  assumes "translate s v sid a vm = Some (r, s')" and "success r"
  shows "enabled s"
proof (rule ccontr)
  assume "\<not> enabled s"
  with assms(1) have "r = TranslationResult_default\<lparr>fault_reason := ''SMMU is disabled''\<rparr>"
    by (auto simp: translate_def Let_def)
  with assms(2) show False by (simp add: TranslationResult_default_def)
qed

lemma timestamp_counter_lookup_loop:
  "TLB.timestamp_counter (snd (lookup_loop t v sid a vm pss)) = TLB.timestamp_counter t"
  by (induction pss) (simp_all add: Let_def split: option.splits)

lemma timestamp_counter_tlb_lookup:
  "TLB.timestamp_counter (snd (tlb_lookup t v sid a vm)) = TLB.timestamp_counter t"
  unfolding tlb_lookup_def by (rule timestamp_counter_lookup_loop)

lemma entry_key_4KB:
  "entry_key
     \<lparr>TLBEntry.va = v, pa = p, TLBEntry.stream_id = sid, TLBEntry.asid = a,
      TLBEntry.vmid = vm, page_size = SIZE_4KB, TLBEntry.memory_type = mt,
      TLBEntry.permission = pm, TLBEntry.cacheable = c, TLBEntry.shareable = shr,
      TLBEntry.stage = stg, TLBEntry.timestamp = ts\<rparr> =
   \<lparr>va_base = get_page_base v SIZE_4KB, TLBKey.stream_id = sid, TLBKey.asid = a,
    TLBKey.vmid = vm\<rparr>"
  by (simp add: entry_key_def)

lemma get_page_base_4KB: "get_page_base v SIZE_4KB = v AND NOT 0xFFF"
  by (simp add: get_page_base_def)

lemma lru_list_tlb_insert: "lru_list (tlb_insert t e) \<noteq> [] \<and> hd (lru_list (tlb_insert t e)) = entry_key e"
  by (simp add: tlb_insert_def Let_def)

text \<open>Evaluating translate on the worked configuration.\<close>

lemma translate_stage1_only:
  assumes "enabled s" and "tlb_lookup (tlb s) v sid a vm = (None, t)"
    and "get_stream_table_entry s sid = ste"
    and "StreamTableEntry.valid ste" and "s1_enabled ste" and "\<not> s2_enabled ste"
    and "get_context_descriptor s sid a = cd" and "ContextDescriptor.valid cd"
    and "walker_translate (memory_read s) v (translation_table_base cd)
           (translation_granule cd) (ips cd) STAGE1 = Some (r, reads)"
  shows "\<exists>s'. translate s v sid a vm = Some (r, s')"
  using assms
  by (simp add: translate_def Let_def translate_stages_def translate_stage1_def
      get_stream_table_entry_def get_context_descriptor_def)

lemma translate_invalid_stream:
  assumes "enabled s" and "tlb_lookup (tlb s) v sid a vm = (None, t)"
    and "\<not> StreamTableEntry.valid (get_stream_table_entry s sid)"
  shows "\<exists>s'. translate s v sid a vm =
           Some (TranslationResult_default\<lparr>fault_reason := ''Invalid stream table entry''\<rparr>, s')"
  using assms
  by (simp add: translate_def Let_def get_stream_table_entry_def)

lemma block_memory_walk:
  "walker_translate block_memory 0x1234 0x1000 12 48 STAGE1 =
   Some (\<lparr>success = True, physical_addr = 0x40001234,
          TranslationResult.memory_type = NORMAL_WB,
          TranslationResult.permission = READ_WRITE,
          TranslationResult.cacheable = True, TranslationResult.shareable = True,
          fault_reason = []\<rparr>,
         [0x1000, 0x2000])"
proof -
  let ?ctx = "\<lparr>WalkContext.va = 0x1234, ttb = 0x1000, granule_size = 12, ips_bits = 48,
               start_level = 0, max_level = 3, WalkContext.stage = STAGE1\<rparr>"
  have p0: "parse_descriptor 0x2003 0 12 =
     \<lparr>PageTableDescriptor.valid = True, is_table = True, address = 0x2000, ap = READ_WRITE,
      mem_attr = DEVICE_nGnRnE, PageTableDescriptor.shareable = False, access_flag = False,
      dirty = False, contiguous = False, privileged_execute_never = False,
      execute_never = False\<rparr>"
    by (simp add: parse_descriptor_def Let_def PageTableDescriptor_default_def)
  have p1: "parse_descriptor 0x40000711 1 12 =
     \<lparr>PageTableDescriptor.valid = True, is_table = False, address = 0x40000000, ap = READ_WRITE,
      mem_attr = NORMAL_WB, PageTableDescriptor.shareable = True, access_flag = True,
      dirty = False, contiguous = False, privileged_execute_never = False,
      execute_never = False\<rparr>"
    by (simp add: parse_descriptor_def Let_def PageTableDescriptor_default_def)
  have i0: "get_descriptor_address 0x1000 (get_index_bits 0x1234 0 12) 12 = 0x1000"
    by (simp add: get_descriptor_address_def get_index_bits_def index_shift_def
        bits_per_level_def Let_def)
  have i1: "get_descriptor_address 0x2000 (get_index_bits 0x1234 1 12) 12 = 0x2000"
    by (simp add: get_descriptor_address_def get_index_bits_def index_shift_def
        bits_per_level_def Let_def)
  have l1: "walk_loop block_memory ?ctx 0x2000 1 [0x1000] =
      Some (\<lparr>success = True, physical_addr = 0x40001234,
          TranslationResult.memory_type = NORMAL_WB,
          TranslationResult.permission = READ_WRITE,
          TranslationResult.cacheable = True, TranslationResult.shareable = True,
          fault_reason = []\<rparr>,
         [0x1000, 0x2000])"
    by (subst walk_loop.simps)
      (simp add: i1 p1 block_memory_def Let_def get_page_size_def TranslationResult_default_def)
  have l0: "walk_loop block_memory ?ctx 0x1000 0 [] =
      walk_loop block_memory ?ctx 0x2000 1 [0x1000]"
    by (subst walk_loop.simps) (simp add: i0 p0 block_memory_def Let_def)
  show ?thesis
    by (simp add: walker_translate_def walk_table_def l0 l1)
qed

lemma example_smmu_fields:
  "enabled example_smmu"
  "tlb example_smmu = TLB_init 128"
  "memory_read example_smmu = block_memory"
  "event_queue example_smmu = []"
  "stats example_smmu = Statistics_zero"
  "config example_smmu = SMMUConfig_default"
  "get_stream_table_entry example_smmu 0 =
     StreamTableEntry_default\<lparr>StreamTableEntry.valid := True, s1_enabled := True\<rparr>"
  "get_context_descriptor example_smmu 0 1 =
     ContextDescriptor_default
       \<lparr>ContextDescriptor.valid := True, translation_table_base := 0x1000,
        ContextDescriptor.asid := 1, translation_granule := 12, ips := 48\<rparr>"
  by (simp_all add: example_smmu_def enable_def configure_context_descriptor_def
      configure_stream_table_entry_def SMMU_init_def SMMUConfig_default_def
      get_stream_table_entry_def get_context_descriptor_def make_cd_key_def)

lemma tlb_lookup_init:
  "tlb_lookup (TLB_init n) v sid a vm = (None, (TLB_init n)\<lparr>miss_count := 1\<rparr>)"
  by (simp add: tlb_lookup_def TLB_init_def Let_def)

lemma example_translate:
  "\<exists>s'. translate example_smmu 0x1234 0 1 0 =
     Some (\<lparr>success = True, physical_addr = 0x40001234,
            TranslationResult.memory_type = NORMAL_WB,
            TranslationResult.permission = READ_WRITE,
            TranslationResult.cacheable = True, TranslationResult.shareable = True,
            fault_reason = []\<rparr>, s')"
proof (rule translate_stage1_only)
  show "enabled example_smmu" by (rule example_smmu_fields)
  show "tlb_lookup (tlb example_smmu) 0x1234 0 1 0 = (None, (TLB_init 128)\<lparr>miss_count := 1\<rparr>)"
    by (simp add: example_smmu_fields tlb_lookup_init)
  show "get_stream_table_entry example_smmu 0 =
     StreamTableEntry_default\<lparr>StreamTableEntry.valid := True, s1_enabled := True\<rparr>"
    by (rule example_smmu_fields)
  show "get_context_descriptor example_smmu 0 1 =
     ContextDescriptor_default
       \<lparr>ContextDescriptor.valid := True, translation_table_base := 0x1000,
        ContextDescriptor.asid := 1, translation_granule := 12, ips := 48\<rparr>"
    by (rule example_smmu_fields)
  show "walker_translate (memory_read example_smmu) 0x1234
     (translation_table_base (ContextDescriptor_default
       \<lparr>ContextDescriptor.valid := True, translation_table_base := 0x1000,
        ContextDescriptor.asid := 1, translation_granule := 12, ips := 48\<rparr>))
     (translation_granule (ContextDescriptor_default
       \<lparr>ContextDescriptor.valid := True, translation_table_base := 0x1000,
        ContextDescriptor.asid := 1, translation_granule := 12, ips := 48\<rparr>))
     (ips (ContextDescriptor_default
       \<lparr>ContextDescriptor.valid := True, translation_table_base := 0x1000,
        ContextDescriptor.asid := 1, translation_granule := 12, ips := 48\<rparr>)) STAGE1 =
    Some (\<lparr>success = True, physical_addr = 0x40001234,
            TranslationResult.memory_type = NORMAL_WB,
            TranslationResult.permission = READ_WRITE,
            TranslationResult.cacheable = True, TranslationResult.shareable = True,
            fault_reason = []\<rparr>, [0x1000, 0x2000])"
    by (simp add: example_smmu_fields block_memory_walk)
qed (simp_all add: StreamTableEntry_default_def ContextDescriptor_default_def)

lemma example_smmu_stream_7:
  "\<not> StreamTableEntry.valid (get_stream_table_entry example_smmu 7)"
  by (simp add: example_smmu_def enable_def configure_context_descriptor_def
      configure_stream_table_entry_def SMMU_init_def get_stream_table_entry_def
      StreamTableEntry_default_def)









text \<open>
  Claim C2. When translate succeeds after missing the cache, the cache afterwards holds,
  under the key made of the request's address rounded down to 4 KiB, its stream, ASID and
  VMID, an entry for the request with page size 4 KiB and the returned address and
  attributes, and that key is at the front of the recency list. The entry's page size is
  4 KiB whatever the size of the region the walk's leaf descriptor maps.
\<close>

theorem translate_miss_installs_4KB_entry:
  assumes "translate s v sid a vm = Some (r, s')" and "success r"
    and "fst (tlb_lookup (tlb s) v sid a vm) = None"
  shows "Mapping.lookup (entries (tlb s'))
           \<lparr>va_base = v AND NOT 0xFFF, TLBKey.stream_id = sid, TLBKey.asid = a,
            TLBKey.vmid = vm\<rparr> =
         Some \<lparr>TLBEntry.va = v, pa = physical_addr r, TLBEntry.stream_id = sid,
               TLBEntry.asid = a, TLBEntry.vmid = vm, page_size = SIZE_4KB,
               TLBEntry.memory_type = TranslationResult.memory_type r,
               TLBEntry.permission = TranslationResult.permission r,
               TLBEntry.cacheable = TranslationResult.cacheable r,
               TLBEntry.shareable = TranslationResult.shareable r,
               TLBEntry.stage =
                 (if s1_enabled (get_stream_table_entry s sid) then STAGE1 else STAGE2),
               TLBEntry.timestamp = TLB.timestamp_counter (tlb s)\<rparr> \<and>
         hd (lru_list (tlb s')) =
           \<lparr>va_base = v AND NOT 0xFFF, TLBKey.stream_id = sid, TLBKey.asid = a,
            TLBKey.vmid = vm\<rparr>"
proof -
  have en: "enabled s" using assms(1,2) by (rule translate_success_enabled)
  obtain t where lk: "tlb_lookup (tlb s) v sid a vm = (None, t)"
    using assms(3) by (cases "tlb_lookup (tlb s) v sid a vm") simp
  then have t: "t = snd (tlb_lookup (tlb s) v sid a vm)" by simp
  let ?e = "\<lparr>TLBEntry.va = v, pa = physical_addr r, TLBEntry.stream_id = sid,
            TLBEntry.asid = a, TLBEntry.vmid = vm, page_size = SIZE_4KB,
            TLBEntry.memory_type = TranslationResult.memory_type r,
            TLBEntry.permission = TranslationResult.permission r,
            TLBEntry.cacheable = TranslationResult.cacheable r,
            TLBEntry.shareable = TranslationResult.shareable r,
            TLBEntry.stage =
              (if s1_enabled (get_stream_table_entry s sid) then STAGE1 else STAGE2),
            TLBEntry.timestamp = 0\<rparr>"
  from translate_miss [OF en lk assms(1)] assms(2)
  have s': "tlb s' = tlb_insert t ?e" by simp
  have ts: "TLB.timestamp_counter t = TLB.timestamp_counter (tlb s)"
    unfolding t by (rule timestamp_counter_tlb_lookup)
  have k: "entry_key ?e =
      \<lparr>va_base = v AND NOT 0xFFF, TLBKey.stream_id = sid, TLBKey.asid = a, TLBKey.vmid = vm\<rparr>"
    by (simp add: entry_key_4KB get_page_base_4KB)
  from lookup_insert_same [of t ?e] lru_list_tlb_insert [of t ?e]
  show ?thesis unfolding s' k ts by simp
qed

theorem translate_miss_installs_4KB_entry_witness:
  "\<exists>s'. translate example_smmu 0x1234 0 1 0 =
          Some (\<lparr>success = True, physical_addr = 0x40001234,
                 TranslationResult.memory_type = NORMAL_WB,
                 TranslationResult.permission = READ_WRITE,
                 TranslationResult.cacheable = True, TranslationResult.shareable = True,
                 fault_reason = []\<rparr>, s') \<and>
        Mapping.lookup (entries (tlb s'))
          \<lparr>va_base = 0x1000, TLBKey.stream_id = 0, TLBKey.asid = 1, TLBKey.vmid = 0\<rparr> =
        Some \<lparr>TLBEntry.va = 0x1234, pa = 0x40001234, TLBEntry.stream_id = 0,
              TLBEntry.asid = 1, TLBEntry.vmid = 0, page_size = SIZE_4KB,
              TLBEntry.memory_type = NORMAL_WB, TLBEntry.permission = READ_WRITE,
              TLBEntry.cacheable = True, TLBEntry.shareable = True,
              TLBEntry.stage = STAGE1, TLBEntry.timestamp = 0\<rparr>"
proof -
  let ?r = "\<lparr>success = True, physical_addr = 0x40001234,
            TranslationResult.memory_type = NORMAL_WB,
            TranslationResult.permission = READ_WRITE,
            TranslationResult.cacheable = True, TranslationResult.shareable = True,
            fault_reason = []\<rparr>"
  obtain s' where t1: "translate example_smmu 0x1234 0 1 0 = Some (?r, s')"
    using example_translate by blast
  have ok: "success ?r" by simp
  have miss: "fst (tlb_lookup (tlb example_smmu) 0x1234 0 1 0) = None"
    by (simp add: example_smmu_fields tlb_lookup_init)
  have ts: "TLB.timestamp_counter (tlb example_smmu) = 0"
    by (simp add: example_smmu_fields TLB_init_def)
  have st: "s1_enabled (get_stream_table_entry example_smmu 0)"
    by (simp add: example_smmu_fields)
  have m: "(0x1234 :: 64 word) AND NOT 0xFFF = 0x1000" by simp
  from translate_miss_installs_4KB_entry [OF t1 ok miss] t1
  show ?thesis unfolding ts m by (intro exI [of _ s']) (simp add: st)
qed

text \<open>
  Claim C3. A call of translate on an enabled unit that returns a failure adds exactly one
  to the translation-fault counter and generates one event for the failure: if the event
  queue is not full, one Translation-fault event carrying the failure's reason is
  appended and the count of generated events goes up by one; if the queue is full, the
  event is dropped and the queue and the count stay as they are.
\<close>

theorem translate_failure_one_fault_one_event:
  assumes "enabled s" and "translate s v sid a vm = Some (r, s')" and "\<not> success r"
  shows "translation_faults (stats s') = translation_faults (stats s) + 1 \<and>
         (if length (event_queue s) < event_queue_size (config s) then
            (\<exists>ev. event_queue s' = event_queue s @ [ev] \<and>
                  fault_type ev = TRANSLATION_FAULT \<and> description ev = fault_reason r) \<and>
            events_generated (stats s') = events_generated (stats s) + 1
          else
            event_queue s' = event_queue s \<and>
            events_generated (stats s') = events_generated (stats s))"
proof -
  obtain y t where lk: "tlb_lookup (tlb s) v sid a vm = (y, t)"
    by (cases "tlb_lookup (tlb s) v sid a vm")
  show ?thesis
  proof (cases y)
    case (Some e)
    from translate_hit [OF assms(1) lk [unfolded Some]] assms(2) have "success r" by auto
    with assms(3) show ?thesis by simp
  next
    case None
    from translate_miss [OF assms(1) lk [unfolded None] assms(2)] assms(3)
    show ?thesis by simp
  qed
qed

theorem translate_failure_one_fault_one_event_witness:
  "enabled example_smmu \<and>
   (\<exists>r s'. translate example_smmu 0x1000 7 0 0 = Some (r, s') \<and> \<not> success r \<and>
      fault_reason r = ''Invalid stream table entry'' \<and>
      translation_faults (stats s') = 1 \<and>
      (\<exists>ev. event_queue s' = [ev] \<and> fault_type ev = TRANSLATION_FAULT \<and>
            description ev = ''Invalid stream table entry'') \<and>
      events_generated (stats s') = 1)"
proof -
  let ?r = "TranslationResult_default\<lparr>fault_reason := ''Invalid stream table entry''\<rparr>"
  have en: "enabled example_smmu" by (rule example_smmu_fields)
  have lk: "tlb_lookup (tlb example_smmu) 0x1000 7 0 0 = (None, (TLB_init 128)\<lparr>miss_count := 1\<rparr>)"
    by (simp add: example_smmu_fields tlb_lookup_init)
  obtain s' where t1: "translate example_smmu 0x1000 7 0 0 = Some (?r, s')"
    using translate_invalid_stream [OF en lk example_smmu_stream_7] by blast
  have f: "\<not> success ?r" "fault_reason ?r = ''Invalid stream table entry''"
    by (simp_all add: TranslationResult_default_def)
  have q: "length (event_queue example_smmu) < event_queue_size (config example_smmu)"
    "event_queue example_smmu = []"
    "translation_faults (stats example_smmu) = 0"
    "events_generated (stats example_smmu) = 0"
    by (simp_all add: example_smmu_fields SMMUConfig_default_def Statistics_zero_def)
  from translate_failure_one_fault_one_event [OF en t1 f(1)] q f(2)
  have "translation_faults (stats s') = 1 \<and>
      (\<exists>ev. event_queue s' = [ev] \<and> fault_type ev = TRANSLATION_FAULT \<and>
            description ev = ''Invalid stream table entry'') \<and>
      events_generated (stats s') = 1"
    by simp
  with en t1 f show ?thesis by blast
qed

section \<open>Commands and events\<close>

lemma process_command_command_queue_update:
  "process_command (s\<lparr>command_queue := q\<rparr>) cmd = (process_command s cmd)\<lparr>command_queue := q\<rparr>"
  by (cases cmd)
    (simp_all add: process_command_def invalidate_tlb_all_def invalidate_tlb_by_asid_def
      invalidate_tlb_by_vmid_def invalidate_tlb_by_va_def invalidate_tlb_by_stream_def)

lemma commands_processed_process_command:
  "commands_processed (stats (process_command s cmd)) = commands_processed (stats s) + 1"
  by (cases cmd)
    (simp_all add: process_command_def invalidate_tlb_all_def invalidate_tlb_by_asid_def
      invalidate_tlb_by_vmid_def invalidate_tlb_by_va_def invalidate_tlb_by_stream_def)

lemma foldl_process_command_command_queue_update:
  "foldl process_command (s\<lparr>command_queue := q\<rparr>) cmds =
     (foldl process_command s cmds)\<lparr>command_queue := q\<rparr>"
  by (induction cmds arbitrary: s) (simp_all add: process_command_command_queue_update)

text \<open>Draining processes the queued commands from the front, and empties the queue.\<close>

lemma process_commands_foldl:
  "process_commands s = foldl process_command (s\<lparr>command_queue := []\<rparr>) (command_queue s)"
proof (induction "command_queue s" arbitrary: s)
  case Nil
  then have "command_queue s = []" by simp
  then show ?case by (subst process_commands.simps) simp
next
  case (Cons cmd rest)
  then have q: "command_queue s = cmd # rest" by simp
  let ?s' = "process_command (s\<lparr>command_queue := rest\<rparr>) cmd"
  have r: "rest = command_queue ?s'" by (simp add: command_queue_process_command)
  have "process_commands s = process_commands ?s'"
    by (subst process_commands.simps) (simp add: q)
  also have "\<dots> = foldl process_command (?s'\<lparr>command_queue := []\<rparr>) (command_queue ?s')"
    using r by (rule Cons.hyps(1))
  also have "\<dots> = foldl process_command (s\<lparr>command_queue := []\<rparr>) (command_queue s)"
    by (simp add: q command_queue_process_command process_command_command_queue_update)
  finally show ?case .
qed

lemma commands_processed_foldl:
  "commands_processed (stats (foldl process_command s cmds)) =
     commands_processed (stats s) + of_nat (length cmds)"
  by (induction cmds arbitrary: s) (simp_all add: commands_processed_process_command)

lemma command_queue_foldl:
  "command_queue (foldl process_command s cmds) = command_queue s"
  by (induction cmds arbitrary: s) (simp_all add: command_queue_process_command)

text \<open>Submissions that fit into the queue are all appended, in order.\<close>

lemma foldl_submit_command:
  "length (command_queue s) + length cmds \<le> command_queue_size (config s) \<Longrightarrow>
   foldl submit_command s cmds = s\<lparr>command_queue := command_queue s @ cmds\<rparr>"
proof (induction cmds arbitrary: s)
  case Nil
  show ?case by simp
next
  case (Cons cmd cmds)
  let ?s = "s\<lparr>command_queue := command_queue s @ [cmd]\<rparr>"
  from Cons.prems have "submit_command s cmd = ?s" by (simp add: submit_command_def)
  moreover from Cons.prems
  have "length (command_queue ?s) + length cmds \<le> command_queue_size (config ?s)" by simp
  ultimately show ?case using Cons.IH [of ?s] by simp
qed

text \<open>
  Claim C9, as the code has it. If the commands \<open>cmds\<close> are submitted while the command
  queue has room for all of them and the queue is then drained, the drain processes the
  commands that were already pending and then \<open>cmds\<close>, in submission order, leaves the
  queue empty, and adds to commands_processed the number of commands that were pending
  plus the number of commands submitted (modulo \<open>2^64\<close>). From an empty queue the
  counter goes up by exactly the number of commands submitted.
\<close>

theorem submit_then_drain:
  assumes "length (command_queue s) + length cmds \<le> command_queue_size (config s)"
  shows "process_commands (foldl submit_command s cmds) =
           foldl process_command (s\<lparr>command_queue := []\<rparr>) (command_queue s @ cmds) \<and>
         command_queue (process_commands (foldl submit_command s cmds)) = [] \<and>
         commands_processed (stats (process_commands (foldl submit_command s cmds))) =
           commands_processed (stats s) + of_nat (length (command_queue s))
             + of_nat (length cmds)"
proof -
  have p: "process_commands (foldl submit_command s cmds) =
           foldl process_command (s\<lparr>command_queue := []\<rparr>) (command_queue s @ cmds)"
    by (simp add: foldl_submit_command [OF assms] process_commands_foldl)
  show ?thesis
    unfolding p by (simp add: commands_processed_foldl command_queue_foldl)
qed

theorem submit_then_drain_witness:
  "length (command_queue (submit_command example_smmu CMD_SYNC)) + length [CMD_TLBI_NH_ALL, CMD_SYNC]
     \<le> command_queue_size (config (submit_command example_smmu CMD_SYNC)) \<and>
   process_commands
     (foldl submit_command (submit_command example_smmu CMD_SYNC) [CMD_TLBI_NH_ALL, CMD_SYNC]) =
   foldl process_command (example_smmu\<lparr>command_queue := []\<rparr>)
     [CMD_SYNC, CMD_TLBI_NH_ALL, CMD_SYNC] \<and>
   commands_processed
     (stats (process_commands
        (foldl submit_command (submit_command example_smmu CMD_SYNC)
           [CMD_TLBI_NH_ALL, CMD_SYNC]))) = 3"
proof -
  have q: "command_queue example_smmu = []" "command_queue_size (config example_smmu) = 64"
    "commands_processed (stats example_smmu) = 0"
    by (simp_all add: example_smmu_def enable_def configure_context_descriptor_def
        configure_stream_table_entry_def SMMU_init_def SMMUConfig_default_def
        Statistics_zero_def)
  have s: "submit_command example_smmu CMD_SYNC = example_smmu\<lparr>command_queue := [CMD_SYNC]\<rparr>"
    by (simp add: submit_command_def q)
  have h: "length (command_queue (submit_command example_smmu CMD_SYNC))
             + length [CMD_TLBI_NH_ALL, CMD_SYNC]
           \<le> command_queue_size (config (submit_command example_smmu CMD_SYNC))"
    by (simp add: s q)
  from submit_then_drain [OF h] h show ?thesis
    by (simp add: s q commands_processed_process_command)
qed

text \<open>
  The count of the claim as first stated, "by exactly the number of commands submitted",
  fails when a command is already pending: with one \<open>CMD_SYNC\<close> queued on the worked
  configuration (63 free slots), one more submitted and the queue drained, the counter
  goes from 0 to 2.
\<close>

theorem submit_then_drain_pending_counterexample:
  "length (command_queue (submit_command example_smmu CMD_SYNC)) + length [CMD_SYNC]
     \<le> command_queue_size (config (submit_command example_smmu CMD_SYNC)) \<and>
   commands_processed (stats (submit_command example_smmu CMD_SYNC)) = 0 \<and>
   commands_processed
     (stats (process_commands
        (foldl submit_command (submit_command example_smmu CMD_SYNC) [CMD_SYNC]))) = 2 \<and>
   commands_processed
     (stats (process_commands
        (foldl submit_command (submit_command example_smmu CMD_SYNC) [CMD_SYNC]))) \<noteq>
   commands_processed (stats (submit_command example_smmu CMD_SYNC)) + of_nat (length [CMD_SYNC])"
proof -
  have q: "command_queue example_smmu = []" "command_queue_size (config example_smmu) = 64"
    "commands_processed (stats example_smmu) = 0"
    by (simp_all add: example_smmu_def enable_def configure_context_descriptor_def
        configure_stream_table_entry_def SMMU_init_def SMMUConfig_default_def
        Statistics_zero_def)
  have s: "submit_command example_smmu CMD_SYNC = example_smmu\<lparr>command_queue := [CMD_SYNC]\<rparr>"
    by (simp add: submit_command_def q)
  have s2: "submit_command (example_smmu\<lparr>command_queue := [CMD_SYNC]\<rparr>) CMD_SYNC =
      example_smmu\<lparr>command_queue := [CMD_SYNC, CMD_SYNC]\<rparr>"
    by (simp add: submit_command_def q)
  have p: "commands_processed (stats (process_commands
       (example_smmu\<lparr>command_queue := [CMD_SYNC, CMD_SYNC]\<rparr>))) = 2"
    by (simp add: process_commands_foldl commands_processed_process_command q)
  show ?thesis by (simp add: s s2 p q)
qed

text \<open>
  Claim C10. Popping an event while the event queue is empty returns the default event
  (fault kind None; stream, ASID, VMID, address and timestamp zero; empty description)
  and leaves the state, and so the empty queue, as it is.
\<close>

theorem pop_event_empty:
  assumes "\<not> has_events s"
  shows "pop_event s =
           (\<lparr>fault_type = FaultType.NONE, Event.stream_id = 0, Event.asid = 0, Event.vmid = 0,
             Event.va = 0, description = [], Event.timestamp = 0\<rparr>, s) \<and>
         \<not> has_events (snd (pop_event s))"
  using assms by (simp add: has_events_def pop_event_def Event_default_def)

theorem pop_event_empty_witness:
  "\<not> has_events example_smmu \<and>
   pop_event example_smmu =
     (\<lparr>fault_type = FaultType.NONE, Event.stream_id = 0, Event.asid = 0, Event.vmid = 0,
       Event.va = 0, description = [], Event.timestamp = 0\<rparr>, example_smmu)"
proof -
  have h: "\<not> has_events example_smmu"
    by (simp add: has_events_def example_smmu_fields)
  from pop_event_empty [OF h] h show ?thesis by simp
qed

end
